theory Spec2Isabelle
  imports Main "HOL-Library.Sublist"
begin

section \<open>The UnoCSS plugin for rolldown (src/index.ts)\<close>

text \<open>
  The plugin is glue between three collaborators it does not implement: the UnoCSS
  generator (\<open>uno\<close>, with its transformers), the text buffer of magic-string and the
  host bundler. The collaborators are parameters of the model: a transformer, the
  \<open>onTransform\<close> callback and \<open>uno.generate\<close> are functions that return or throw, and
  whatever the plugin hands to one of them is an argument of that function. The
  mutable variables the plugin's closure holds (\<open>uno\<close>, \<open>tokens\<close>, \<open>cleanup\<close>) form the
  state that every hook takes and returns. An exception is a value \<open>Inl e\<close>; the state
  returned next to it is the one the exception leaves behind. The hooks are \<open>async\<close>:
  a run of a hook is modelled from its call to its settlement, every \<open>await\<close> having
  completed, and runs follow one another.
\<close>

subsection \<open>JavaScript values\<close>

text \<open>
  A thrown value: an \<open>Error\<close> of some collaborator, or the \<open>TypeError\<close> of reading a
  property of \<open>uno\<close> while it is still undefined (its text describes it; the engine's
  own message is not modelled).
\<close>

datatype error = Error string | TypeError string

type_synonym token = string

text \<open>
  A JavaScript \<open>Set\<close> keeps its elements in insertion order, each once: a list without
  repetition. \<open>add\<close> of an element that is present changes nothing.
\<close>

definition Set_add :: "'a \<Rightarrow> 'a list \<Rightarrow> 'a list" where
  "Set_add x s = (if x \<in> set s then s else s @ [x])"

definition Set_delete :: "'a \<Rightarrow> 'a list \<Rightarrow> 'a list" where
  "Set_delete x s = removeAll x s"

definition Set_clear :: "'a list \<Rightarrow> 'a list" where
  "Set_clear s = []"

text \<open>
  magic-string's buffer: the source it was built from and the text its edits have
  produced so far, which \<open>toString\<close> materialises. The source map is kept symbolic:
  the buffer it was derived from and the \<open>hires\<close> flag.
\<close>

record MagicString =
  original :: string
  edited :: string

definition new_MagicString :: "string \<Rightarrow> MagicString" where
  "new_MagicString src = \<lparr>original = src, edited = src\<rparr>"

definition toString :: "MagicString \<Rightarrow> string" where
  "toString ms = edited ms"

datatype SourceMap = SourceMap MagicString bool

definition generateMap :: "MagicString \<Rightarrow> bool \<Rightarrow> SourceMap" where
  "generateMap ms hires = SourceMap ms hires"

record HighlightAnnotation =
  ann_offset :: nat
  ann_length :: nat
  ann_className :: string

text \<open>
  A cleanup callback (\<open>VoidFunction\<close>) is opaque: it has an identity, and a call of it
  returns or throws.
\<close>

datatype VoidFunction = VoidFunction (fn_name: string) (fn_throws: "error option")

subsection \<open>The generator and its transformers\<close>

text \<open>
  What a transformer can do with the \<open>context\<close> it is given: the context holds the
  plugin's own \<open>tokens\<close> set (the same object) and the two closures over \<open>cleanup\<close>.
\<close>

datatype ctx_call =
    TokensAdd token
  | TokensDelete token
  | TokensClear
  | OnInvalidate VoidFunction
  | Invalidate

record TransformResult =
  highlightAnnotations :: "HighlightAnnotation list option"

text \<open>
  One call \<open>transform(code, id, context)\<close>: the buffer as the call leaves it, the calls
  it made on the context, in order, and what it returned (\<open>None\<close> is \<open>undefined\<close>) or
  threw. The third argument is what the context shows of the plugin's state: the
  current content of \<open>tokens\<close>.
\<close>

record TransformOutcome =
  ms_after :: MagicString
  ctx_calls :: "ctx_call list"
  returned :: "error + TransformResult option"

record SourceCodeTransformer =
  name :: string
  idFilter :: "(string \<Rightarrow> bool) option"
  transform :: "MagicString \<Rightarrow> string \<Rightarrow> token list \<Rightarrow> TransformOutcome"

datatype GenerateInput = Text string | TokenSet "token list"

record GenerateOptions =
  g_id :: string
  g_minify :: "bool option"

record GenerateResult =
  css :: string
  matched :: "token list"

record UnoGenerator =
  transformers :: "SourceCodeTransformer list option"
  generate :: "GenerateInput \<Rightarrow> GenerateOptions option \<Rightarrow> error + GenerateResult"

subsection \<open>Options and their defaults (lines 11-90)\<close>

text \<open>
  The pattern of a \<open>HookFilter\<close>'s \<open>id\<close>: a regular expression, here a sequence of
  single-character items searched anywhere in the identifier, with an optional \<open>$\<close>.
\<close>

datatype re_item = Lit char | Class "char list"

record RegExp =
  re_items :: "re_item list"
  re_end :: bool





record HookFilter =
  filter_id :: "RegExp option"

type_synonym OnTransform =
  "string \<Rightarrow> MagicString \<Rightarrow> HighlightAnnotation list \<Rightarrow> MagicString \<times> error option"

record 'c UnoCSSPluginOptions =
  opt_minify :: "bool option"
  opt_root :: "string option"
  opt_filter :: "HookFilter option"
  opt_fileName :: "string option"
  opt_config :: "'c option"
  opt_generateCSS :: "bool option"
  opt_onTransform :: "OnTransform option"

text \<open>The constants the destructuring of \<open>options\<close> binds (lines 82-90).\<close>

record 'c plugin_config =
  root :: string
  minify :: "bool option"
  hookFilter :: HookFilter
  fileName :: string
  inlineConfig :: "'c option"
  generateCSS :: bool
  onTransform :: "OnTransform option"

definition jtsx :: RegExp where
  "jtsx = \<lparr>re_items = [Lit CHR ''.'', Class ''jt'', Lit CHR ''s'', Lit CHR ''x''], re_end = True\<rparr>"

definition no_options :: "'c UnoCSSPluginOptions" where
  "no_options = \<lparr>opt_minify = None, opt_root = None, opt_filter = None, opt_fileName = None,
     opt_config = None, opt_generateCSS = None, opt_onTransform = None\<rparr>"

text \<open>\<open>cwd\<close> is what \<open>process.cwd()\<close> returns.\<close>

definition unocss :: "string \<Rightarrow> 'c UnoCSSPluginOptions \<Rightarrow> 'c plugin_config" where
  "unocss cwd options =
     \<lparr>root = (case opt_root options of None \<Rightarrow> cwd | Some r \<Rightarrow> r),
      minify = opt_minify options,
      hookFilter = (case opt_filter options of None \<Rightarrow> \<lparr>filter_id = Some jtsx\<rparr> | Some f \<Rightarrow> f),
      fileName = (case opt_fileName options of None \<Rightarrow> ''uno.css'' | Some n \<Rightarrow> n),
      inlineConfig = opt_config options,
      generateCSS = (case opt_generateCSS options of None \<Rightarrow> True | Some g \<Rightarrow> g),
      onTransform = opt_onTransform options\<rparr>"

subsection \<open>The plugin's state\<close>

datatype EmittedFile = Asset (asset_source: string) (asset_fileName: string)

text \<open>
  The calls the plugin makes on its collaborators, in the order it makes them, are kept
  in \<open>trace\<close>: each event holds the arguments of the call, and for \<open>this.emitFile\<close> also
  what the host threw, if it threw.
\<close>

datatype event =
    EvTransform string string MagicString
  | EvOnTransform string MagicString "HighlightAnnotation list"
  | EvGenerate GenerateInput "GenerateOptions option"
  | EvCleanup VoidFunction
  | EvEmitFile EmittedFile "error option"

record plugin_state =
  uno :: "UnoGenerator option"
  tokens :: "token list"
  cleanup :: "VoidFunction list"
  trace :: "event list"

definition init_state :: plugin_state where
  "init_state = \<lparr>uno = None, tokens = [], cleanup = [], trace = []\<rparr>"

subsection \<open>The context (lines 134-146)\<close>

fun forEach_call :: "VoidFunction list \<Rightarrow> event list \<Rightarrow> (error + unit) \<times> event list" where
  "forEach_call [] tr = (Inr (), tr)"
| "forEach_call (c # cs) tr =
     (case fn_throws c of
        Some e \<Rightarrow> (Inl e, tr @ [EvCleanup c])
      | None \<Rightarrow> forEach_call cs (tr @ [EvCleanup c]))"

definition invalidate :: "plugin_state \<Rightarrow> (error + unit) \<times> plugin_state" where
  "invalidate st = (case forEach_call (cleanup st) (trace st) of (r, tr) \<Rightarrow> (r, st\<lparr>trace := tr\<rparr>))"

definition onInvalidate :: "VoidFunction \<Rightarrow> plugin_state \<Rightarrow> plugin_state" where
  "onInvalidate fn st = st\<lparr>cleanup := cleanup st @ [fn]\<rparr>"

text \<open>
  The effect on the plugin's state of one call a transformer makes on the context. An
  exception out of \<open>invalidate\<close> lands in the transformer, whose outcome says what
  became of it.
\<close>

fun ctx_step :: "plugin_state \<Rightarrow> ctx_call \<Rightarrow> plugin_state" where
  "ctx_step st (TokensAdd t) = st\<lparr>tokens := Set_add t (tokens st)\<rparr>"
| "ctx_step st (TokensDelete t) = st\<lparr>tokens := Set_delete t (tokens st)\<rparr>"
| "ctx_step st TokensClear = st\<lparr>tokens := Set_clear (tokens st)\<rparr>"
| "ctx_step st (OnInvalidate fn) = onInvalidate fn st"
| "ctx_step st Invalidate = snd (invalidate st)"

text \<open>
  \<open>loadConfig\<close> and \<open>createGenerator\<close> are the host environment's; \<open>buildStart\<close> assigns
  \<open>uno\<close> and the context together.
\<close>

record 'c environment =
  loadConfig :: "string \<Rightarrow> 'c option \<Rightarrow> error + 'c"
  createGenerator :: "'c \<Rightarrow> error + UnoGenerator"

definition buildStart ::
  "'c environment \<Rightarrow> 'c plugin_config \<Rightarrow> plugin_state \<Rightarrow> (error + unit) \<times> plugin_state" where
  "buildStart env cfg st =
     (case loadConfig env (root cfg) (inlineConfig cfg) of
        Inl e \<Rightarrow> (Inl e, st)
      | Inr config \<Rightarrow>
          (case createGenerator env config of
             Inl e \<Rightarrow> (Inl e, st)
           | Inr u \<Rightarrow> (Inr (), st\<lparr>uno := Some u\<rparr>)))"

subsection \<open>applyTransformers (lines 107-125)\<close>

definition accepts :: "SourceCodeTransformer \<Rightarrow> string \<Rightarrow> bool" where
  "accepts t id' = (case idFilter t of None \<Rightarrow> True | Some f \<Rightarrow> f id')"

definition annotations_of :: "TransformResult option \<Rightarrow> HighlightAnnotation list" where
  "annotations_of result =
     (case result of
        None \<Rightarrow> []
      | Some r \<Rightarrow> (case highlightAnnotations r of None \<Rightarrow> [] | Some anns \<Rightarrow> anns))"

text \<open>The body of the \<open>for\<close> loop, on what is left of the list.\<close>

fun transformers_loop ::
  "SourceCodeTransformer list \<Rightarrow> MagicString \<Rightarrow> string \<Rightarrow> HighlightAnnotation list \<Rightarrow>
   plugin_state \<Rightarrow> (error + MagicString \<times> HighlightAnnotation list) \<times> plugin_state" where
  "transformers_loop [] ms id' annotations st = (Inr (ms, annotations), st)"
| "transformers_loop (t # list) ms id' annotations st =
     (if \<not> accepts t id' then transformers_loop list ms id' annotations st
      else
        (let out = transform t ms id' (tokens st);
             st' = foldl ctx_step (st\<lparr>trace := trace st @ [EvTransform (name t) id' ms]\<rparr>) (ctx_calls out)
         in case returned out of
              Inl e \<Rightarrow> (Inl e, st')
            | Inr result \<Rightarrow>
                transformers_loop list (ms_after out) id' (annotations @ annotations_of result) st'))"

definition applyTransformers ::
  "MagicString \<Rightarrow> string \<Rightarrow> plugin_state \<Rightarrow>
   (error + MagicString \<times> HighlightAnnotation list) \<times> plugin_state" where
  "applyTransformers ms id' st =
     (case uno st of
        None \<Rightarrow> (Inl (TypeError ''uno is undefined''), st)
      | Some u \<Rightarrow>
          (case transformers u of
             None \<Rightarrow> (Inr (ms, []), st)
           | Some list \<Rightarrow>
               (if length list = 0 then (Inr (ms, []), st)
                else transformers_loop list ms id' [] st)))"

subsection \<open>The transform handler (lines 151-178)\<close>

record handler_result =
  out_code :: string
  out_map :: SourceMap

text \<open>Lines 167-169: the matched tokens go into the accumulator.\<close>

definition accumulate :: "token list \<Rightarrow> token list \<Rightarrow> token list" where
  "accumulate m acc = (if length m > 0 then fold Set_add m acc else acc)"

definition call_onTransform ::
  "OnTransform option \<Rightarrow> string \<Rightarrow> MagicString \<Rightarrow> HighlightAnnotation list \<Rightarrow> plugin_state \<Rightarrow>
   (error + MagicString) \<times> plugin_state" where
  "call_onTransform cb id' ms annotations st =
     (case cb of
        None \<Rightarrow> (Inr ms, st)
      | Some f \<Rightarrow>
          (case f id' ms annotations of
             (ms', Some e) \<Rightarrow> (Inl e, st\<lparr>trace := trace st @ [EvOnTransform id' ms annotations]\<rparr>)
           | (ms', None) \<Rightarrow> (Inr ms', st\<lparr>trace := trace st @ [EvOnTransform id' ms annotations]\<rparr>)))"

text \<open>Lines 152-164: from the source text to the scan's result.\<close>

definition scan_file ::
  "'c plugin_config \<Rightarrow> string \<Rightarrow> string \<Rightarrow> plugin_state \<Rightarrow>
   (error + MagicString \<times> string \<times> GenerateResult) \<times> plugin_state" where
  "scan_file cfg src id' st =
     (case applyTransformers (new_MagicString src) id' st of
        (Inl e, st1) \<Rightarrow> (Inl e, st1)
      | (Inr (ms1, annotations), st1) \<Rightarrow>
          (case call_onTransform (onTransform cfg) id' ms1 annotations st1 of
             (Inl e, st2) \<Rightarrow> (Inl e, st2)
           | (Inr ms2, st2) \<Rightarrow>
               (let finalCode = toString ms2 in
                case uno st2 of
                  None \<Rightarrow> (Inl (TypeError ''uno is undefined''), st2)
                | Some u \<Rightarrow>
                    (let opts = Some \<lparr>g_id = id', g_minify = minify cfg\<rparr>;
                         st3 = st2\<lparr>trace := trace st2 @ [EvGenerate (Text finalCode) opts]\<rparr>
                     in case generate u (Text finalCode) opts of
                          Inl e \<Rightarrow> (Inl e, st3)
                        | Inr r \<Rightarrow> (Inr (ms2, finalCode, r), st3)))))"

definition handler ::
  "'c plugin_config \<Rightarrow> string \<Rightarrow> string \<Rightarrow> plugin_state \<Rightarrow>
   (error + handler_result) \<times> plugin_state" where
  "handler cfg src id' st =
     (case scan_file cfg src id' st of
        (Inl e, st3) \<Rightarrow> (Inl e, st3)
      | (Inr (ms, finalCode, r), st3) \<Rightarrow>
          (Inr \<lparr>out_code = finalCode, out_map = generateMap ms True\<rparr>,
           st3\<lparr>tokens := accumulate (matched r) (tokens st3)\<rparr>))"

subsection \<open>generateBundle (lines 181-193)\<close>

text \<open>
  \<open>emitFile\<close> is the host's \<open>this.emitFile\<close>: it takes the asset, or throws (as it does for
  a file name that is an absolute or a relative path) and then no asset exists.
\<close>

definition generateBundle ::
  "(EmittedFile \<Rightarrow> error option) \<Rightarrow> 'c plugin_config \<Rightarrow> plugin_state \<Rightarrow>
   (error + unit) \<times> plugin_state" where
  "generateBundle emitFile cfg st =
     (if \<not> generateCSS cfg then (Inr (), st)
      else
        (case uno st of
           None \<Rightarrow> (Inl (TypeError ''uno is undefined''), st)
         | Some u \<Rightarrow>
             (let st1 = st\<lparr>trace := trace st @ [EvGenerate (TokenSet (tokens st)) None]\<rparr>
              in case generate u (TokenSet (tokens st)) None of
                   Inl e \<Rightarrow> (Inl e, st1)
                 | Inr r \<Rightarrow>
                     (let f = Asset (css r) (fileName cfg);
                          st2 = st1\<lparr>trace := trace st1 @ [EvEmitFile f (emitFile f)]\<rparr>
                      in case emitFile f of
                           Some e \<Rightarrow> (Inl e, st2)
                         | None \<Rightarrow> (Inr (), st2)))))"

subsection \<open>The handler between its awaits\<close>

text \<open>
  The host may call the handler for another file before the one for this file has
  settled: a handler gives way at each \<open>await\<close> (lines 118, 155, 159, 164), and the others
  run in between. A handler in flight is in one of these phases; a step takes it from one
  \<open>await\<close> to the next, and makes at most one call on a collaborator. A transformer whose
  filter rejects the file takes a step of its own here, which only adds interleavings.
\<close>

text \<open>Lines 162-164: materialise the buffer and scan it.\<close>

definition scan_buffer ::
  "'c plugin_config \<Rightarrow> string \<Rightarrow> MagicString \<Rightarrow> plugin_state \<Rightarrow>
   (error + string \<times> GenerateResult) \<times> plugin_state" where
  "scan_buffer cfg id' ms st =
     (let finalCode = toString ms in
      case uno st of
        None \<Rightarrow> (Inl (TypeError ''uno is undefined''), st)
      | Some u \<Rightarrow>
          (let opts = Some \<lparr>g_id = id', g_minify = minify cfg\<rparr>;
               st' = st\<lparr>trace := trace st @ [EvGenerate (Text finalCode) opts]\<rparr>
           in case generate u (Text finalCode) opts of
                Inl e \<Rightarrow> (Inl e, st')
              | Inr r \<Rightarrow> (Inr (finalCode, r), st')))"

datatype phase =
    Started string
  | Transforming "SourceCodeTransformer list" MagicString "HighlightAnnotation list"
  | Calling MagicString "HighlightAnnotation list"
  | Scanning MagicString
  | Inserting MagicString string GenerateResult
  | Settled "error + handler_result"

fun step :: "'c plugin_config \<Rightarrow> string \<Rightarrow> phase \<Rightarrow> plugin_state \<Rightarrow> phase \<times> plugin_state" where
  "step cfg id' (Started src) st =
     (case uno st of
        None \<Rightarrow> (Settled (Inl (TypeError ''uno is undefined'')), st)
      | Some u \<Rightarrow>
          (case transformers u of
             None \<Rightarrow> (Calling (new_MagicString src) [], st)
           | Some list \<Rightarrow>
               (if length list = 0 then (Calling (new_MagicString src) [], st)
                else (Transforming list (new_MagicString src) [], st))))"
| "step cfg id' (Transforming [] ms annotations) st = (Calling ms annotations, st)"
| "step cfg id' (Transforming (t # list) ms annotations) st =
     (case transformers_loop [t] ms id' annotations st of
        (Inl e, st') \<Rightarrow> (Settled (Inl e), st')
      | (Inr (ms', annotations'), st') \<Rightarrow> (Transforming list ms' annotations', st'))"
| "step cfg id' (Calling ms annotations) st =
     (case call_onTransform (onTransform cfg) id' ms annotations st of
        (Inl e, st') \<Rightarrow> (Settled (Inl e), st')
      | (Inr ms', st') \<Rightarrow> (Scanning ms', st'))"
| "step cfg id' (Scanning ms) st =
     (case scan_buffer cfg id' ms st of
        (Inl e, st') \<Rightarrow> (Settled (Inl e), st')
      | (Inr (finalCode, r), st') \<Rightarrow> (Inserting ms finalCode r, st'))"
| "step cfg id' (Inserting ms finalCode r) st =
     (Settled (Inr \<lparr>out_code = finalCode, out_map = generateMap ms True\<rparr>),
      st\<lparr>tokens := accumulate (matched r) (tokens st)\<rparr>)"
| "step cfg id' (Settled x) st = (Settled x, st)"

text \<open>\<open>n\<close> steps of one handler, with no other handler in between.\<close>

fun steps :: "'c plugin_config \<Rightarrow> string \<Rightarrow> nat \<Rightarrow> phase \<Rightarrow> plugin_state \<Rightarrow> phase \<times> plugin_state" where
  "steps cfg id' 0 p st = (p, st)"
| "steps cfg id' (Suc n) p st = (case step cfg id' p st of (p', st') \<Rightarrow> steps cfg id' n p' st')"

text \<open>
  The handlers in flight: each with its file identifier. A schedule names, step by step,
  the handler that runs next.
\<close>

type_synonym task = "string \<times> phase"

definition start_tasks :: "(string \<times> string) list \<Rightarrow> task list" where
  "start_tasks files = map (\<lambda>(src, id'). (id', Started src)) files"

fun run :: "'c plugin_config \<Rightarrow> nat list \<Rightarrow> task list \<Rightarrow> plugin_state \<Rightarrow> task list \<times> plugin_state" where
  "run cfg [] pool st = (pool, st)"
| "run cfg (i # sched) pool st =
     (if i < length pool then
        (case step cfg (fst (pool ! i)) (snd (pool ! i)) st of
           (p', st') \<Rightarrow> run cfg sched (pool[i := (fst (pool ! i), p')]) st')
      else run cfg sched pool st)"



text \<open>What is left of the handler once \<open>applyTransformers\<close> has settled.\<close>

definition after_transformers ::
  "'c plugin_config \<Rightarrow> string \<Rightarrow> (error + MagicString \<times> HighlightAnnotation list) \<times> plugin_state \<Rightarrow>
   (error + handler_result) \<times> plugin_state" where
  "after_transformers cfg id' r =
     (case r of
        (Inl e, st1) \<Rightarrow> (Inl e, st1)
      | (Inr (ms1, annotations), st1) \<Rightarrow>
          (case call_onTransform (onTransform cfg) id' ms1 annotations st1 of
             (Inl e, st2) \<Rightarrow> (Inl e, st2)
           | (Inr ms2, st2) \<Rightarrow>
               (case scan_buffer cfg id' ms2 st2 of
                  (Inl e, st3) \<Rightarrow> (Inl e, st3)
                | (Inr (finalCode, r), st3) \<Rightarrow>
                    (Inr \<lparr>out_code = finalCode, out_map = generateMap ms2 True\<rparr>,
                     st3\<lparr>tokens := accumulate (matched r) (tokens st3)\<rparr>))))"

subsection \<open>Reading the trace\<close>

text \<open>The events a run has added to the trace.\<close>

definition new_events :: "plugin_state \<Rightarrow> plugin_state \<Rightarrow> event list" where
  "new_events st st' = drop (length (trace st)) (trace st')"

text \<open>The texts handed to \<open>uno.generate\<close> for scanning, in order.\<close>

fun scans :: "event list \<Rightarrow> string list" where
  "scans [] = []"
| "scans (EvGenerate (Text s) opts # es) = s # scans es"
| "scans (e # es) = scans es"

text \<open>The token sets handed to \<open>uno.generate\<close> for CSS generation, in order.\<close>

fun token_reads :: "event list \<Rightarrow> token list list" where
  "token_reads [] = []"
| "token_reads (EvGenerate (TokenSet ts) opts # es) = ts # token_reads es"
| "token_reads (e # es) = token_reads es"


text \<open>The assets the host has taken, in order.\<close>

fun emitted :: "event list \<Rightarrow> EmittedFile list" where
  "emitted [] = []"
| "emitted (EvEmitFile f None # es) = f # emitted es"
| "emitted (e # es) = emitted es"

fun transform_names :: "event list \<Rightarrow> string list" where
  "transform_names [] = []"
| "transform_names (EvTransform n i ms # es) = n # transform_names es"
| "transform_names (e # es) = transform_names es"

fun is_onTransform :: "event \<Rightarrow> bool" where
  "is_onTransform (EvOnTransform i ms anns) = True"
| "is_onTransform e = False"

text \<open>An event is a transformer's: the call of the transformer, or a cleanup callback
  that the transformer's \<open>context.invalidate()\<close> ran.\<close>

fun by_transformer :: "event \<Rightarrow> bool" where
  "by_transformer (EvTransform n i ms) = True"
| "by_transformer (EvCleanup c) = True"
| "by_transformer e = False"

text \<open>The callbacks one \<open>forEach\<close> reaches: all of them up to the first that throws.\<close>

fun called :: "VoidFunction list \<Rightarrow> VoidFunction list" where
  "called [] = []"
| "called (c # cs) = (if fn_throws c = None then c # called cs else [c])"

subsection \<open>What transformers do to the accumulator\<close>

fun writes_tokens :: "ctx_call \<Rightarrow> bool" where
  "writes_tokens (TokensAdd t) = True"
| "writes_tokens (TokensDelete t) = True"
| "writes_tokens TokensClear = True"
| "writes_tokens (OnInvalidate fn) = False"
| "writes_tokens Invalidate = False"

fun removes_tokens :: "ctx_call \<Rightarrow> bool" where
  "removes_tokens (TokensAdd t) = False"
| "removes_tokens (TokensDelete t) = True"
| "removes_tokens TokensClear = True"
| "removes_tokens (OnInvalidate fn) = False"
| "removes_tokens Invalidate = False"

definition all_transformers :: "UnoGenerator \<Rightarrow> SourceCodeTransformer list" where
  "all_transformers u = (case transformers u of None \<Rightarrow> [] | Some list \<Rightarrow> list)"

text \<open>No transformer of the generator ever writes to \<open>context.tokens\<close>.\<close>

definition never_writes :: "UnoGenerator \<Rightarrow> bool" where
  "never_writes u =
     list_all (\<lambda>t. \<forall>ms i tk. list_all (\<lambda>c. \<not> writes_tokens c) (ctx_calls (transform t ms i tk)))
       (all_transformers u)"

text \<open>No transformer of the generator ever deletes from \<open>context.tokens\<close> or clears it.\<close>

definition never_removes :: "UnoGenerator \<Rightarrow> bool" where
  "never_removes u =
     list_all (\<lambda>t. \<forall>ms i tk. list_all (\<lambda>c. \<not> removes_tokens c) (ctx_calls (transform t ms i tk)))
       (all_transformers u)"




subsection \<open>The specification of applyTransformers\<close>

text \<open>
  What the specification says of the transformers that take part: each is applied to the
  buffer the one before it has left, in the order of the list, and each contributes the
  annotations it returns. The first exception ends the run.
\<close>

fun apply_in_order_spec ::
  "SourceCodeTransformer list \<Rightarrow> MagicString \<Rightarrow> string \<Rightarrow> plugin_state \<Rightarrow>
   (error + MagicString \<times> HighlightAnnotation list list) \<times> plugin_state" where
  "apply_in_order_spec [] ms id' st = (Inr (ms, []), st)"
| "apply_in_order_spec (t # ts) ms id' st =
     (let out = transform t ms id' (tokens st);
          st' = foldl ctx_step (st\<lparr>trace := trace st @ [EvTransform (name t) id' ms]\<rparr>) (ctx_calls out)
      in case returned out of
           Inl e \<Rightarrow> (Inl e, st')
         | Inr result \<Rightarrow>
             (case apply_in_order_spec ts (ms_after out) id' st' of
                (Inl e, s) \<Rightarrow> (Inl e, s)
              | (Inr (ms', anss), s) \<Rightarrow> (Inr (ms', annotations_of result # anss), s)))"

text \<open>The returned list is the concatenation of the contributions, after \<open>anns\<close>.\<close>

definition join_annotations ::
  "HighlightAnnotation list \<Rightarrow> (error + MagicString \<times> HighlightAnnotation list list) \<times> plugin_state \<Rightarrow>
   (error + MagicString \<times> HighlightAnnotation list) \<times> plugin_state" where
  "join_annotations anns r =
     (case r of
        (Inl e, s) \<Rightarrow> (Inl e, s)
      | (Inr (ms', anss), s) \<Rightarrow> (Inr (ms', anns @ concat anss), s))"

subsection \<open>Example collaborators\<close>

text \<open>A transformer that rewrites the variant group \<open>hover:(a b)\<close> and annotates it.\<close>

definition variantGroup :: SourceCodeTransformer where
  "variantGroup =
     \<lparr>name = ''variant-group'', idFilter = None,
      transform = (\<lambda>ms i tk.
        \<lparr>ms_after = (if edited ms = ''hover:(a b)'' then ms\<lparr>edited := ''hover:a hover:b''\<rparr> else ms),
         ctx_calls = [],
         returned = Inr (Some \<lparr>highlightAnnotations =
           Some [\<lparr>ann_offset = 0, ann_length = 11, ann_className = ''hover:(a b)''\<rparr>]\<rparr>)\<rparr>)\<rparr>"

text \<open>A transformer that leaves the buffer alone, makes the given calls on the context
  and returns or throws as given.\<close>

definition contextUser ::
  "string \<Rightarrow> (string \<Rightarrow> bool) option \<Rightarrow> ctx_call list \<Rightarrow> error + TransformResult option \<Rightarrow>
   SourceCodeTransformer" where
  "contextUser n f calls r =
     \<lparr>name = n, idFilter = f,
      transform = (\<lambda>ms i tk. \<lparr>ms_after = ms, ctx_calls = calls, returned = r\<rparr>)\<rparr>"

fun split_on :: "char \<Rightarrow> string \<Rightarrow> string list" where
  "split_on c [] = [[]]"
| "split_on c (x # xs) =
     (if x = c then [] # split_on c xs
      else (case split_on c xs of [] \<Rightarrow> [[x]] | w # ws \<Rightarrow> (x # w) # ws))"

text \<open>A generator whose scan matches every word of the text and whose style sheet lists
  the tokens; it fails on the text \<open>!\<close>.\<close>

definition wordGenerator :: "SourceCodeTransformer list option \<Rightarrow> UnoGenerator" where
  "wordGenerator list =
     \<lparr>transformers = list,
      generate = (\<lambda>inp opts.
        case inp of
          Text s \<Rightarrow>
            (if s = ''!'' then Inl (Error ''scan failed'')
             else Inr \<lparr>css = [], matched = remdups (filter (\<lambda>w. w \<noteq> []) (split_on CHR '' '' s))\<rparr>)
        | TokenSet ts \<Rightarrow> Inr \<lparr>css = concat (map (\<lambda>t. CHR ''.'' # t @ ''{}'') ts), matched = ts\<rparr>)\<rparr>"

definition started :: "UnoGenerator \<Rightarrow> plugin_state" where
  "started u = init_state\<lparr>uno := Some u\<rparr>"

definition plain_config :: "unit plugin_config" where
  "plain_config = unocss ''/project'' no_options"

definition cssOnly :: SourceCodeTransformer where
  "cssOnly = contextUser ''css-only'' (Some (\<lambda>i. i = ''x.css'')) [TokensAdd ''never'']
     (Inr (Some \<lparr>highlightAnnotations = Some [\<lparr>ann_offset = 7, ann_length = 1, ann_className = ''x''\<rparr>]\<rparr>))"

definition marker :: SourceCodeTransformer where
  "marker = contextUser ''marker'' (Some (\<lambda>i. i \<noteq> ''x.css'')) []
     (Inr (Some \<lparr>highlightAnnotations = Some [\<lparr>ann_offset = 0, ann_length = 7, ann_className = ''hover:a''\<rparr>]\<rparr>))"

definition appendClass :: OnTransform where
  "appendClass i ms anns = (ms\<lparr>edited := edited ms @ '' c''\<rparr>, None)"

text \<open>Transformers that write to \<open>context.tokens\<close>.\<close>

definition compileClass :: SourceCodeTransformer where
  "compileClass = contextUser ''compile-class'' None [TokensAdd ''uno-1''] (Inr None)"

definition resetting :: SourceCodeTransformer where
  "resetting = contextUser ''reset'' None [TokensClear] (Inr None)"

text \<open>A generator whose every call throws, and hosts that take or refuse an asset.\<close>

definition brokenGenerator :: UnoGenerator where
  "brokenGenerator = \<lparr>transformers = None, generate = (\<lambda>inp opts. Inl (Error ''generate failed''))\<rparr>"

definition takes :: "EmittedFile \<Rightarrow> error option" where
  "takes f = None"

definition refuses :: "EmittedFile \<Rightarrow> error option" where
  "refuses f = Some (Error ''invalid file name'')"

text \<open>Two transformers for \<open>a.tsx\<close> that only read \<open>context.tokens\<close>: the first marks
  the text when \<open>b\<close> is among the tokens, the second takes the mark away and adds \<open>x\<close>
  when \<open>b\<close> has come or gone since.\<close>

definition noting :: SourceCodeTransformer where
  "noting = \<lparr>name = ''noting'', idFilter = Some (\<lambda>i. i = ''a.tsx''),
     transform = (\<lambda>ms i tk.
       \<lparr>ms_after = (if ''b'' \<in> set tk then ms\<lparr>edited := ''a?''\<rparr> else ms),
        ctx_calls = [], returned = Inr None\<rparr>)\<rparr>"

definition comparing :: SourceCodeTransformer where
  "comparing = \<lparr>name = ''comparing'', idFilter = Some (\<lambda>i. i = ''a.tsx''),
     transform = (\<lambda>ms i tk.
       \<lparr>ms_after = ms\<lparr>edited := (if (''b'' \<in> set tk) = (edited ms = ''a?'') then ''a'' else ''a x'')\<rparr>,
        ctx_calls = [], returned = Inr None\<rparr>)\<rparr>"

section \<open>Helper lemmas\<close>

lemma Set_add_present: "x \<in> set s \<Longrightarrow> Set_add x s = s"
  by (simp add: Set_add_def)

subsection \<open>The default filter\<close>




subsection \<open>JavaScript sets\<close>

lemma set_Set_add: "set (Set_add x s) = insert x (set s)"
  by (auto simp: Set_add_def)

lemma set_fold_Set_add: "set (fold Set_add m acc) = set acc \<union> set m"
  by (induction m arbitrary: acc) (auto simp: set_Set_add)

lemma set_accumulate: "set (accumulate m acc) = set acc \<union> set m"
  by (simp add: accumulate_def set_fold_Set_add)

lemma distinct_Set_add: "distinct s \<Longrightarrow> distinct (Set_add x s)"
  by (simp add: Set_add_def)

subsection \<open>The trace\<close>

lemma new_events_append: "trace st' = trace st @ evs \<Longrightarrow> new_events st st' = evs"
  by (simp add: new_events_def)

lemma scans_append: "scans (xs @ ys) = scans xs @ scans ys"
  by (induction xs rule: scans.induct) simp_all

lemma token_reads_append: "token_reads (xs @ ys) = token_reads xs @ token_reads ys"
  by (induction xs rule: token_reads.induct) simp_all

lemma emitted_append: "emitted (xs @ ys) = emitted xs @ emitted ys"
  by (induction xs rule: emitted.induct) simp_all

lemma transform_names_append: "transform_names (xs @ ys) = transform_names xs @ transform_names ys"
  by (induction xs rule: transform_names.induct) simp_all

lemma transform_names_cleanup: "transform_names (map EvCleanup ks) = []"
  by (induction ks) simp_all

lemma by_transformer_cleanup: "list_all by_transformer (map EvCleanup ks)"
  by (induction ks) simp_all

lemma by_transformer_scans: "list_all by_transformer evs \<Longrightarrow> scans evs = []"
  by (induction evs rule: scans.induct) simp_all

lemma by_transformer_token_reads: "list_all by_transformer evs \<Longrightarrow> token_reads evs = []"
  by (induction evs rule: token_reads.induct) simp_all

lemma by_transformer_emitted: "list_all by_transformer evs \<Longrightarrow> emitted evs = []"
  by (induction evs rule: emitted.induct) simp_all

lemma by_transformer_onTransform: "list_all by_transformer evs \<Longrightarrow> filter is_onTransform evs = []"
  by (induction evs) (auto elim: by_transformer.elims)

subsection \<open>The context\<close>

lemma forEach_call_trace: "snd (forEach_call cs tr) = tr @ map EvCleanup (called cs)"
  by (induction cs arbitrary: tr) (auto split: option.splits)

lemma forEach_call_returns:
  "fst (forEach_call cs tr) = Inr () \<longleftrightarrow> list_all (\<lambda>c. fn_throws c = None) cs"
  by (induction cs arbitrary: tr) (auto split: option.splits)

lemma called_all: "list_all (\<lambda>c. fn_throws c = None) cs \<Longrightarrow> called cs = cs"
  by (induction cs) auto

lemma called_prefix: "prefix (called cs) cs"
  by (induction cs) auto

lemma invalidate_frame:
  "uno (snd (invalidate st)) = uno st"
  "tokens (snd (invalidate st)) = tokens st"
  "cleanup (snd (invalidate st)) = cleanup st"
  "trace (snd (invalidate st)) = trace st @ map EvCleanup (called (cleanup st))"
  using forEach_call_trace[of "cleanup st" "trace st"]
  by (auto simp: invalidate_def split: prod.splits)

lemma ctx_step_uno: "uno (ctx_step st c) = uno st"
  by (cases c) (simp_all add: onInvalidate_def invalidate_frame)

lemma ctx_step_cleanup: "prefix (cleanup st) (cleanup (ctx_step st c))"
  by (cases c) (simp_all add: onInvalidate_def invalidate_frame)

lemma ctx_step_trace: "\<exists>ks. trace (ctx_step st c) = trace st @ map EvCleanup ks"
proof (cases c)
  case Invalidate
  then show ?thesis by (auto simp: invalidate_frame)
qed (simp_all add: onInvalidate_def)

lemma ctx_step_tokens: "\<not> writes_tokens c \<Longrightarrow> tokens (ctx_step st c) = tokens st"
  by (cases c) (simp_all add: onInvalidate_def invalidate_frame)

lemma ctx_step_tokens_mono:
  "\<not> removes_tokens c \<Longrightarrow> set (tokens st) \<subseteq> set (tokens (ctx_step st c))"
  by (cases c) (auto simp: onInvalidate_def invalidate_frame set_Set_add)

lemma ctx_steps_uno: "uno (foldl ctx_step st cs) = uno st"
  by (induction cs arbitrary: st) (simp_all add: ctx_step_uno)

lemma ctx_steps_cleanup: "prefix (cleanup st) (cleanup (foldl ctx_step st cs))"
proof (induction cs arbitrary: st)
  case Nil
  show ?case by simp
next
  case (Cons c cs)
  have "prefix (cleanup st) (cleanup (ctx_step st c))" by (rule ctx_step_cleanup)
  also have "prefix \<dots> (cleanup (foldl ctx_step (ctx_step st c) cs))" by (rule Cons.IH)
  finally show ?case by simp
qed

lemma ctx_steps_trace: "\<exists>ks. trace (foldl ctx_step st cs) = trace st @ map EvCleanup ks"
proof (induction cs arbitrary: st)
  case Nil
  show ?case by simp
next
  case (Cons c cs)
  obtain k1 where k1: "trace (ctx_step st c) = trace st @ map EvCleanup k1"
    using ctx_step_trace by blast
  obtain k2 where k2: "trace (foldl ctx_step (ctx_step st c) cs) = trace (ctx_step st c) @ map EvCleanup k2"
    using Cons.IH by blast
  from k1 k2 have "trace (foldl ctx_step st (c # cs)) = trace st @ map EvCleanup (k1 @ k2)"
    by simp
  then show ?case by blast
qed

lemma ctx_steps_tokens:
  "list_all (\<lambda>c. \<not> writes_tokens c) cs \<Longrightarrow> tokens (foldl ctx_step st cs) = tokens st"
  by (induction cs arbitrary: st) (simp_all add: ctx_step_tokens)

lemma ctx_steps_tokens_mono:
  "list_all (\<lambda>c. \<not> removes_tokens c) cs \<Longrightarrow> set (tokens st) \<subseteq> set (tokens (foldl ctx_step st cs))"
proof (induction cs arbitrary: st)
  case Nil
  show ?case by simp
next
  case (Cons c cs)
  then have "set (tokens st) \<subseteq> set (tokens (ctx_step st c))"
    by (simp add: ctx_step_tokens_mono)
  moreover have "set (tokens (ctx_step st c)) \<subseteq> set (tokens (foldl ctx_step (ctx_step st c) cs))"
    using Cons by simp
  ultimately show ?case by auto
qed

subsection \<open>One transformer call\<close>

text \<open>The state after the call of one transformer \<open>t\<close> that takes part.\<close>

lemma one_call_frame:
  fixes t ms id' st
  defines "s1 \<equiv> foldl ctx_step (st\<lparr>trace := trace st @ [EvTransform (name t) id' ms]\<rparr>)
                   (ctx_calls (transform t ms id' (tokens st)))"
  shows "uno s1 = uno st"
    and "prefix (cleanup st) (cleanup s1)"
    and "\<exists>ks. trace s1 = trace st @ EvTransform (name t) id' ms # map EvCleanup ks"
    and "list_all (\<lambda>c. \<not> writes_tokens c) (ctx_calls (transform t ms id' (tokens st)))
          \<Longrightarrow> tokens s1 = tokens st"
    and "list_all (\<lambda>c. \<not> removes_tokens c) (ctx_calls (transform t ms id' (tokens st)))
          \<Longrightarrow> set (tokens st) \<subseteq> set (tokens s1)"
proof -
  let ?s0 = "st\<lparr>trace := trace st @ [EvTransform (name t) id' ms]\<rparr>"
  let ?cs = "ctx_calls (transform t ms id' (tokens st))"
  show "uno s1 = uno st" by (simp add: s1_def ctx_steps_uno)
  show "prefix (cleanup st) (cleanup s1)"
    using ctx_steps_cleanup[of ?s0 ?cs] by (simp add: s1_def)
  show "\<exists>ks. trace s1 = trace st @ EvTransform (name t) id' ms # map EvCleanup ks"
    using ctx_steps_trace[of ?s0 ?cs] by (simp add: s1_def)
  show "tokens s1 = tokens st" if "list_all (\<lambda>c. \<not> writes_tokens c) ?cs"
    using ctx_steps_tokens[OF that, of ?s0] by (simp add: s1_def)
  show "set (tokens st) \<subseteq> set (tokens s1)" if "list_all (\<lambda>c. \<not> removes_tokens c) ?cs"
    using ctx_steps_tokens_mono[OF that, of ?s0] by (simp add: s1_def)
qed

subsection \<open>The loop over the transformers\<close>

lemma loop_refines:
  "transformers_loop list ms id' anns st =
     join_annotations anns (apply_in_order_spec (filter (\<lambda>t. accepts t id') list) ms id' st)"
proof (induction list ms id' anns st rule: transformers_loop.induct)
  case (1 ms id' annotations st)
  show ?case by (simp add: join_annotations_def)
next
  case (2 t list ms id' annotations st)
  show ?case
  proof (cases "accepts t id'")
    case False
    with 2 show ?thesis by simp
  next
    case True
    show ?thesis
    proof (cases "returned (transform t ms id' (tokens st))")
      case (Inl e)
      with True show ?thesis by (simp add: join_annotations_def Let_def)
    next
      case (Inr result)
      with True 2(2)[OF _ refl refl Inr] show ?thesis
        by (simp add: join_annotations_def Let_def split: prod.splits sum.splits)
    qed
  qed
qed

lemma spec_frame:
  "apply_in_order_spec ts ms id' st = (r, st') \<Longrightarrow>
     uno st' = uno st \<and> prefix (cleanup st) (cleanup st') \<and>
     (\<exists>evs. trace st' = trace st @ evs \<and> list_all by_transformer evs \<and>
        (case r of Inl e \<Rightarrow> prefix (transform_names evs) (map name ts)
                 | Inr v \<Rightarrow> transform_names evs = map name ts))"
proof (induction ts arbitrary: ms st r st')
  case Nil
  then show ?case by auto
next
  case (Cons t ts)
  let ?out = "transform t ms id' (tokens st)"
  let ?s1 = "foldl ctx_step (st\<lparr>trace := trace st @ [EvTransform (name t) id' ms]\<rparr>) (ctx_calls ?out)"
  have u: "uno ?s1 = uno st" by (rule one_call_frame)
  have c: "prefix (cleanup st) (cleanup ?s1)" by (rule one_call_frame)
  obtain ks where t: "trace ?s1 = trace st @ EvTransform (name t) id' ms # map EvCleanup ks"
    using one_call_frame(3)[where t=t and ms=ms and id'=id' and st=st] by blast
  let ?e1 = "EvTransform (name t) id' ms # map EvCleanup ks"
  have e1: "list_all by_transformer ?e1" "transform_names ?e1 = [name t]"
    by (simp_all add: by_transformer_cleanup transform_names_cleanup)
  show ?case
  proof (cases "returned ?out")
    case (Inl e)
    with Cons.prems have "st' = ?s1" "r = Inl e" by (auto simp: Let_def)
    with u c t e1 show ?thesis by auto
  next
    case (Inr result)
    obtain r2 s2 where run: "apply_in_order_spec ts (ms_after ?out) id' ?s1 = (r2, s2)"
      by (cases "apply_in_order_spec ts (ms_after ?out) id' ?s1") blast
    from Cons.IH[OF run] obtain e2 where ih:
      "uno s2 = uno ?s1" "prefix (cleanup ?s1) (cleanup s2)"
      "trace s2 = trace ?s1 @ e2" "list_all by_transformer e2"
      "case r2 of Inl e \<Rightarrow> prefix (transform_names e2) (map name ts)
                | Inr v \<Rightarrow> transform_names e2 = map name ts"
      by blast
    from Cons.prems Inr run have st': "st' = s2"
      and r: "r = (case r2 of Inl e \<Rightarrow> Inl e | Inr (ms', anss) \<Rightarrow> Inr (ms', annotations_of result # anss))"
      by (auto simp: Let_def split: sum.splits prod.splits)
    have tr: "trace st' = trace st @ (?e1 @ e2)" using ih(3) t st' by simp
    have bt: "list_all by_transformer (?e1 @ e2)" using e1 ih(4) by simp
    have nm: "case r of Inl e \<Rightarrow> prefix (transform_names (?e1 @ e2)) (map name (t # ts))
                | Inr v \<Rightarrow> transform_names (?e1 @ e2) = map name (t # ts)"
      using ih(5) r e1(2)
      by (simp add: transform_names_append transform_names_cleanup split: sum.splits prod.splits)
    from ih(1) u st' have "uno st' = uno st" by simp
    moreover from ih(2) c st' have "prefix (cleanup st) (cleanup st')"
      by (meson prefix_order.trans)
    ultimately show ?thesis using tr bt nm by blast
  qed
qed

lemma spec_tokens:
  "apply_in_order_spec ts ms id' st = (r, st') \<Longrightarrow>
   list_all (\<lambda>t. \<forall>m i tk. list_all (\<lambda>c. \<not> writes_tokens c) (ctx_calls (transform t m i tk))) ts \<Longrightarrow>
   tokens st' = tokens st"
proof (induction ts arbitrary: ms st r st')
  case Nil
  then show ?case by auto
next
  case (Cons t ts)
  let ?out = "transform t ms id' (tokens st)"
  let ?s1 = "foldl ctx_step (st\<lparr>trace := trace st @ [EvTransform (name t) id' ms]\<rparr>) (ctx_calls ?out)"
  from Cons.prems(2) have "list_all (\<lambda>c. \<not> writes_tokens c) (ctx_calls ?out)" by simp
  then have tk: "tokens ?s1 = tokens st" by (rule one_call_frame)
  show ?case
  proof (cases "returned ?out")
    case (Inl e)
    with Cons.prems have "st' = ?s1" by (auto simp: Let_def)
    with tk show ?thesis by simp
  next
    case (Inr result)
    obtain r2 s2 where run: "apply_in_order_spec ts (ms_after ?out) id' ?s1 = (r2, s2)"
      by (cases "apply_in_order_spec ts (ms_after ?out) id' ?s1") blast
    from Cons.prems Inr run have "st' = s2"
      by (auto simp: Let_def split: sum.splits prod.splits)
    moreover from Cons.IH[OF run] Cons.prems(2) have "tokens s2 = tokens ?s1" by simp
    ultimately show ?thesis using tk by simp
  qed
qed

lemma spec_tokens_mono:
  "apply_in_order_spec ts ms id' st = (r, st') \<Longrightarrow>
   list_all (\<lambda>t. \<forall>m i tk. list_all (\<lambda>c. \<not> removes_tokens c) (ctx_calls (transform t m i tk))) ts \<Longrightarrow>
   set (tokens st) \<subseteq> set (tokens st')"
proof (induction ts arbitrary: ms st r st')
  case Nil
  then show ?case by auto
next
  case (Cons t ts)
  let ?out = "transform t ms id' (tokens st)"
  let ?s1 = "foldl ctx_step (st\<lparr>trace := trace st @ [EvTransform (name t) id' ms]\<rparr>) (ctx_calls ?out)"
  from Cons.prems(2) have "list_all (\<lambda>c. \<not> removes_tokens c) (ctx_calls ?out)" by simp
  then have tk: "set (tokens st) \<subseteq> set (tokens ?s1)" by (rule one_call_frame)
  show ?case
  proof (cases "returned ?out")
    case (Inl e)
    with Cons.prems have "st' = ?s1" by (auto simp: Let_def)
    with tk show ?thesis by simp
  next
    case (Inr result)
    obtain r2 s2 where run: "apply_in_order_spec ts (ms_after ?out) id' ?s1 = (r2, s2)"
      by (cases "apply_in_order_spec ts (ms_after ?out) id' ?s1") blast
    from Cons.prems Inr run have "st' = s2"
      by (auto simp: Let_def split: sum.splits prod.splits)
    moreover from Cons.IH[OF run] Cons.prems(2) have "set (tokens ?s1) \<subseteq> set (tokens s2)" by simp
    ultimately show ?thesis using tk by blast
  qed
qed

lemma join_annotations_state: "snd (join_annotations anns r) = snd r"
  by (auto simp: join_annotations_def split: prod.splits sum.splits)

lemma join_annotations_Inr:
  "join_annotations anns r = (Inr v, s) \<Longrightarrow> \<exists>w. r = (Inr w, s)"
  by (auto simp: join_annotations_def split: prod.splits sum.splits)

lemma join_annotations_Inl:
  "join_annotations anns r = (Inl e, s) \<Longrightarrow> r = (Inl e, s)"
  by (auto simp: join_annotations_def split: prod.splits sum.splits)

subsection \<open>applyTransformers\<close>

lemma applyTransformers_refines:
  "uno st = Some u \<Longrightarrow>
   applyTransformers ms id' st =
     join_annotations []
       (apply_in_order_spec (filter (\<lambda>t. accepts t id') (all_transformers u)) ms id' st)"
  by (cases "transformers u")
     (auto simp: applyTransformers_def all_transformers_def loop_refines join_annotations_def)

lemma applyTransformers_undefined:
  "uno st = None \<Longrightarrow> applyTransformers ms id' st = (Inl (TypeError ''uno is undefined''), st)"
  by (simp add: applyTransformers_def)

lemma applyTransformers_frame:
  assumes "applyTransformers ms id' st = (r, st')"
  shows "uno st' = uno st" and "prefix (cleanup st) (cleanup st')"
    and "\<exists>evs. trace st' = trace st @ evs \<and> list_all by_transformer evs"
proof -
  have "uno st' = uno st \<and> prefix (cleanup st) (cleanup st') \<and>
        (\<exists>evs. trace st' = trace st @ evs \<and> list_all by_transformer evs)"
  proof (cases "uno st")
    case None
    with assms show ?thesis by (auto simp: applyTransformers_undefined)
  next
    case (Some u)
    let ?run = "apply_in_order_spec (filter (\<lambda>t. accepts t id') (all_transformers u)) ms id' st"
    from assms Some have "snd ?run = st'"
      using join_annotations_state[of "[]" ?run] by (simp add: applyTransformers_refines)
    then have "?run = (fst ?run, st')" by (cases ?run) simp
    from spec_frame[OF this] show ?thesis by blast
  qed
  then show "uno st' = uno st" and "prefix (cleanup st) (cleanup st')"
    and "\<exists>evs. trace st' = trace st @ evs \<and> list_all by_transformer evs" by blast+
qed

lemma applyTransformers_tokens:
  assumes "applyTransformers ms id' st = (r, st')" "uno st = Some u" "never_writes u"
  shows "tokens st' = tokens st"
proof -
  let ?ts = "filter (\<lambda>t. accepts t id') (all_transformers u)"
  let ?run = "apply_in_order_spec ?ts ms id' st"
  from assms(1,2) have "snd ?run = st'"
    using join_annotations_state[of "[]" ?run] by (simp add: applyTransformers_refines)
  then have run: "?run = (fst ?run, st')" by (cases ?run) simp
  from assms(3) have "list_all (\<lambda>t. \<forall>m i tk. list_all (\<lambda>c. \<not> writes_tokens c) (ctx_calls (transform t m i tk))) ?ts"
    by (auto simp: never_writes_def list_all_iff)
  with spec_tokens[OF run] show ?thesis by simp
qed

lemma applyTransformers_tokens_mono:
  assumes "applyTransformers ms id' st = (r, st')" "uno st = Some u" "never_removes u"
  shows "set (tokens st) \<subseteq> set (tokens st')"
proof -
  let ?ts = "filter (\<lambda>t. accepts t id') (all_transformers u)"
  let ?run = "apply_in_order_spec ?ts ms id' st"
  from assms(1,2) have "snd ?run = st'"
    using join_annotations_state[of "[]" ?run] by (simp add: applyTransformers_refines)
  then have run: "?run = (fst ?run, st')" by (cases ?run) simp
  from assms(3) have "list_all (\<lambda>t. \<forall>m i tk. list_all (\<lambda>c. \<not> removes_tokens c) (ctx_calls (transform t m i tk))) ?ts"
    by (auto simp: never_removes_def list_all_iff)
  with spec_tokens_mono[OF run] show ?thesis by simp
qed

subsection \<open>The handler\<close>

lemma call_onTransform_frame:
  assumes "call_onTransform cb id' ms anns st = (r, st')"
  shows "uno st' = uno st" and "tokens st' = tokens st" and "cleanup st' = cleanup st"
    and "trace st' = trace st @ (case cb of None \<Rightarrow> [] | Some f \<Rightarrow> [EvOnTransform id' ms anns])"
  using assms by (auto simp: call_onTransform_def split: option.splits prod.splits)

lemma call_onTransform_result:
  "fst (call_onTransform cb id' ms anns st) =
     (case cb of
        None \<Rightarrow> Inr ms
      | Some f \<Rightarrow> (case snd (f id' ms anns) of Some e \<Rightarrow> Inl e | None \<Rightarrow> Inr (fst (f id' ms anns))))"
  by (auto simp: call_onTransform_def split: option.splits prod.splits)

text \<open>The three stages of \<open>scan_file\<close>, one after the other.\<close>

lemma scan_file_stages:
  assumes "applyTransformers (new_MagicString src) id' st = (Inr (ms1, anns), st1)"
    and "call_onTransform (onTransform cfg) id' ms1 anns st1 = (Inr ms2, st2)"
    and "uno st2 = Some u"
  shows "scan_file cfg src id' st =
     (case generate u (Text (toString ms2)) (Some \<lparr>g_id = id', g_minify = minify cfg\<rparr>) of
        Inl e \<Rightarrow> Inl e
      | Inr r \<Rightarrow> Inr (ms2, toString ms2, r),
      st2\<lparr>trace := trace st2 @ [EvGenerate (Text (toString ms2)) (Some \<lparr>g_id = id', g_minify = minify cfg\<rparr>)]\<rparr>)"
  using assms by (simp add: scan_file_def Let_def split: sum.splits)

lemma scan_file_transformer_throws:
  "applyTransformers (new_MagicString src) id' st = (Inl e, st1) \<Longrightarrow>
   scan_file cfg src id' st = (Inl e, st1)"
  by (simp add: scan_file_def)

lemma scan_file_callback_throws:
  "applyTransformers (new_MagicString src) id' st = (Inr (ms1, anns), st1) \<Longrightarrow>
   call_onTransform (onTransform cfg) id' ms1 anns st1 = (Inl e, st2) \<Longrightarrow>
   scan_file cfg src id' st = (Inl e, st2)"
  by (simp add: scan_file_def)

lemma scan_file_Inr:
  assumes "scan_file cfg src id' st = (Inr (ms, code, r), st')"
  obtains ms1 anns st1 st2 u where
    "applyTransformers (new_MagicString src) id' st = (Inr (ms1, anns), st1)"
    "call_onTransform (onTransform cfg) id' ms1 anns st1 = (Inr ms, st2)"
    "uno st2 = Some u" "code = toString ms"
    "generate u (Text code) (Some \<lparr>g_id = id', g_minify = minify cfg\<rparr>) = Inr r"
    "st' = st2\<lparr>trace := trace st2 @ [EvGenerate (Text code) (Some \<lparr>g_id = id', g_minify = minify cfg\<rparr>)]\<rparr>"
  using assms
  by (auto simp: scan_file_def Let_def split: prod.splits sum.splits option.splits)

lemma scan_file_tokens:
  "tokens (snd (scan_file cfg src id' st)) =
   tokens (snd (applyTransformers (new_MagicString src) id' st))"
proof (cases "applyTransformers (new_MagicString src) id' st")
  case (Pair r st1)
  show ?thesis
  proof (cases r)
    case (Inl e)
    with Pair show ?thesis by (simp add: scan_file_def)
  next
    case (Inr v)
    obtain ms1 anns where v: "v = (ms1, anns)" by (cases v)
    obtain r2 st2 where cb: "call_onTransform (onTransform cfg) id' ms1 anns st1 = (r2, st2)"
      by (cases "call_onTransform (onTransform cfg) id' ms1 anns st1") blast
    have "tokens st2 = tokens st1" using call_onTransform_frame(2)[OF cb] .
    with Pair Inr v cb show ?thesis
      by (auto simp: scan_file_def Let_def split: sum.splits option.splits)
  qed
qed

lemma scan_file_frame:
  assumes "scan_file cfg src id' st = (r, st')"
  shows "uno st' = uno st" and "prefix (cleanup st) (cleanup st')"
    and "\<exists>evs. trace st' = trace st @ evs \<and> token_reads evs = [] \<and> emitted evs = []"
proof -
  obtain r1 st1 where at: "applyTransformers (new_MagicString src) id' st = (r1, st1)"
    by (cases "applyTransformers (new_MagicString src) id' st") blast
  note f1 = applyTransformers_frame[OF at]
  from f1(3) obtain e1 where e1: "trace st1 = trace st @ e1" "list_all by_transformer e1" by blast
  have "uno st' = uno st \<and> prefix (cleanup st) (cleanup st') \<and>
        (\<exists>evs. trace st' = trace st @ evs \<and> token_reads evs = [] \<and> emitted evs = [])"
  proof (cases r1)
    case (Inl e)
    with at assms have "st' = st1" by (simp add: scan_file_def)
    with f1(1,2) e1 show ?thesis
      using by_transformer_token_reads by_transformer_emitted by blast
  next
    case (Inr v)
    obtain ms1 anns where v: "v = (ms1, anns)" by (cases v)
    obtain r2 st2 where cb: "call_onTransform (onTransform cfg) id' ms1 anns st1 = (r2, st2)"
      by (cases "call_onTransform (onTransform cfg) id' ms1 anns st1") blast
    note f2 = call_onTransform_frame[OF cb]
    let ?e2 = "case onTransform cfg of None \<Rightarrow> [] | Some f \<Rightarrow> [EvOnTransform id' ms1 anns]"
    have e2: "token_reads ?e2 = []" "emitted ?e2 = []" by (simp_all split: option.splits)
    from at Inr v cb assms
    obtain e3 where e3: "trace st' = trace st2 @ e3" "token_reads e3 = []" "emitted e3 = []"
      and rest: "uno st' = uno st2" "cleanup st' = cleanup st2"
      by (auto simp: scan_file_def Let_def split: sum.splits option.splits)
    have "trace st' = trace st @ (e1 @ ?e2 @ e3)" using e1(1) f2(4) e3(1) by simp
    moreover have "token_reads (e1 @ ?e2 @ e3) = []" "emitted (e1 @ ?e2 @ e3) = []"
      using e1(2) e2 e3(2,3)
      by (simp_all add: token_reads_append emitted_append by_transformer_token_reads by_transformer_emitted)
    moreover have "uno st' = uno st" using rest(1) f2(1) f1(1) by simp
    moreover have "prefix (cleanup st) (cleanup st')" using rest(2) f2(3) f1(2) by simp
    ultimately show ?thesis by blast
  qed
  then show "uno st' = uno st" and "prefix (cleanup st) (cleanup st')"
    and "\<exists>evs. trace st' = trace st @ evs \<and> token_reads evs = [] \<and> emitted evs = []" by blast+
qed

lemma handler_state:
  "snd (handler cfg src id' st) =
     (case scan_file cfg src id' st of
        (Inl e, st3) \<Rightarrow> st3
      | (Inr (ms, code, r), st3) \<Rightarrow> st3\<lparr>tokens := accumulate (matched r) (tokens st3)\<rparr>)"
  by (auto simp: handler_def split: prod.splits sum.splits)

lemma handler_Inl:
  "handler cfg src id' st = (Inl e, st') \<longleftrightarrow> scan_file cfg src id' st = (Inl e, st')"
  by (auto simp: handler_def split: prod.splits sum.splits)

lemma handler_Inr:
  assumes "handler cfg src id' st = (Inr res, st')"
  obtains ms r st3 where "scan_file cfg src id' st = (Inr (ms, out_code res, r), st3)"
    "res = \<lparr>out_code = toString ms, out_map = generateMap ms True\<rparr>"
    "st' = st3\<lparr>tokens := accumulate (matched r) (tokens st3)\<rparr>"
proof -
  from assms obtain ms code r st3 where s: "scan_file cfg src id' st = (Inr (ms, code, r), st3)"
    and res: "res = \<lparr>out_code = code, out_map = generateMap ms True\<rparr>"
    and st': "st' = st3\<lparr>tokens := accumulate (matched r) (tokens st3)\<rparr>"
    by (auto simp: handler_def split: prod.splits sum.splits)
  from s have "code = toString ms" by (rule scan_file_Inr)
  with s res st' that show thesis by simp
qed

lemma handler_frame:
  assumes "handler cfg src id' st = (r, st')"
  shows "uno st' = uno st" and "prefix (cleanup st) (cleanup st')"
    and "\<exists>evs. trace st' = trace st @ evs \<and> token_reads evs = [] \<and> emitted evs = []"
proof -
  obtain r3 st3 where s: "scan_file cfg src id' st = (r3, st3)"
    by (cases "scan_file cfg src id' st") blast
  from assms s have "uno st' = uno st3" "cleanup st' = cleanup st3" "trace st' = trace st3"
    by (auto simp: handler_def split: sum.splits prod.splits)
  with scan_file_frame[OF s]
  show "uno st' = uno st" and "prefix (cleanup st) (cleanup st')"
    and "\<exists>evs. trace st' = trace st @ evs \<and> token_reads evs = [] \<and> emitted evs = []"
    by simp_all
qed

lemmas plugin_defs =
  handler_def scan_file_def applyTransformers_def call_onTransform_def generateBundle_def
  accepts_def annotations_of_def accumulate_def Set_add_def Set_delete_def Set_clear_def
  new_MagicString_def toString_def generateMap_def onInvalidate_def invalidate_def
  new_events_def scan_buffer_def start_tasks_def Let_def

lemmas example_defs =
  plain_config_def unocss_def no_options_def started_def init_state_def wordGenerator_def
  variantGroup_def contextUser_def cssOnly_def marker_def appendClass_def
  compileClass_def resetting_def brokenGenerator_def takes_def refuses_def noting_def comparing_def

lemma applyTransformers_names:
  assumes "uno st = Some u" "applyTransformers ms id' st = (Inr v, st')"
  shows "transform_names (new_events st st') = map name (filter (\<lambda>t. accepts t id') (all_transformers u))"
proof -
  let ?ts = "filter (\<lambda>t. accepts t id') (all_transformers u)"
  from assms have "join_annotations [] (apply_in_order_spec ?ts ms id' st) = (Inr v, st')"
    by (simp add: applyTransformers_refines)
  then obtain w where "apply_in_order_spec ?ts ms id' st = (Inr w, st')"
    using join_annotations_Inr by blast
  from spec_frame[OF this] obtain evs where
    "trace st' = trace st @ evs" "transform_names evs = map name ?ts" by auto
  then show ?thesis by (simp add: new_events_append)
qed

lemma handler_tokens:
  "tokens (snd (handler cfg src id' st)) =
     (case fst (scan_file cfg src id' st) of
        Inl e \<Rightarrow> tokens (snd (applyTransformers (new_MagicString src) id' st))
      | Inr (ms, code, r) \<Rightarrow>
          accumulate (matched r) (tokens (snd (applyTransformers (new_MagicString src) id' st))))"
  using scan_file_tokens[of cfg src id' st]
  by (cases "scan_file cfg src id' st") (auto simp: handler_def split: sum.splits)

lemma handler_fails_iff: "fst (handler cfg src id' st) = Inl e \<longleftrightarrow> fst (scan_file cfg src id' st) = Inl e"
  by (cases "scan_file cfg src id' st") (auto simp: handler_def split: sum.splits)

lemma applyTransformers_tokens_snd:
  "uno st = Some u \<Longrightarrow> never_writes u \<Longrightarrow> tokens (snd (applyTransformers ms id' st)) = tokens st"
  using applyTransformers_tokens[of ms id' st] by (cases "applyTransformers ms id' st") auto

lemma applyTransformers_tokens_mono_snd:
  "uno st = Some u \<Longrightarrow> never_removes u \<Longrightarrow>
   set (tokens st) \<subseteq> set (tokens (snd (applyTransformers ms id' st)))"
  using applyTransformers_tokens_mono[of ms id' st] by (cases "applyTransformers ms id' st") auto

lemma handler_uno: "uno (snd (handler cfg src id' st)) = uno st"
  using handler_frame(1)[of cfg src id' st] by (cases "handler cfg src id' st") simp

subsection \<open>The handler, step by step\<close>



lemma handler_after_transformers:
  "handler cfg src id' st = after_transformers cfg id' (applyTransformers (new_MagicString src) id' st)"
  by (auto simp: handler_def scan_file_def after_transformers_def scan_buffer_def Let_def
           split: prod.splits sum.splits option.splits)

lemma loop_one_then_rest:
  "transformers_loop (t # list) ms id' anns st =
     (case transformers_loop [t] ms id' anns st of
        (Inl e, s) \<Rightarrow> (Inl e, s)
      | (Inr (ms', anns'), s) \<Rightarrow> transformers_loop list ms' id' anns' s)"
  by (simp add: Let_def split: sum.splits)

lemma steps_Settled: "steps cfg id' n (Settled x) st = (Settled x, st)"
  by (induction n) simp_all

lemma steps_add:
  "steps cfg id' (m + n) p st = (case steps cfg id' m p st of (p', st') \<Rightarrow> steps cfg id' n p' st')"
  by (induction m arbitrary: p st) (simp_all split: prod.splits)

lemma steps_Inserting:
  "steps cfg id' (Suc n) (Inserting ms code r) st =
     (Settled (Inr \<lparr>out_code = code, out_map = generateMap ms True\<rparr>),
      st\<lparr>tokens := accumulate (matched r) (tokens st)\<rparr>)"
  by (simp add: steps_Settled)

lemma steps_Scanning:
  "steps cfg id' (Suc (Suc n)) (Scanning ms) st =
     (case scan_buffer cfg id' ms st of
        (Inl e, s) \<Rightarrow> (Settled (Inl e), s)
      | (Inr (code, r), s) \<Rightarrow>
          (Settled (Inr \<lparr>out_code = code, out_map = generateMap ms True\<rparr>),
           s\<lparr>tokens := accumulate (matched r) (tokens s)\<rparr>))"
proof (cases "scan_buffer cfg id' ms st")
  case (Pair x s)
  show ?thesis
  proof (cases x)
    case (Inl e)
    with Pair show ?thesis by (simp add: steps_Settled)
  next
    case (Inr v)
    obtain code r where "v = (code, r)" by (cases v)
    with Pair Inr show ?thesis using steps_Inserting[of cfg id' n ms code r s] by simp
  qed
qed

lemma steps_Calling:
  "steps cfg id' (Suc (Suc (Suc n))) (Calling ms anns) st =
     (case after_transformers cfg id' (Inr (ms, anns), st) of (r, s) \<Rightarrow> (Settled r, s))"
proof (cases "call_onTransform (onTransform cfg) id' ms anns st")
  case (Pair x s)
  show ?thesis
  proof (cases x)
    case (Inl e)
    with Pair show ?thesis by (simp add: steps_Settled after_transformers_def)
  next
    case (Inr ms')
    have "steps cfg id' (Suc (Suc (Suc n))) (Calling ms anns) st = steps cfg id' (Suc (Suc n)) (Scanning ms') s"
      using Pair Inr by simp
    also have "\<dots> = (case scan_buffer cfg id' ms' s of
        (Inl e, s) \<Rightarrow> (Settled (Inl e), s)
      | (Inr (code, r), s) \<Rightarrow>
          (Settled (Inr \<lparr>out_code = code, out_map = generateMap ms' True\<rparr>),
           s\<lparr>tokens := accumulate (matched r) (tokens s)\<rparr>))"
      by (rule steps_Scanning)
    also have "\<dots> = (case after_transformers cfg id' (Inr (ms, anns), st) of (r, s) \<Rightarrow> (Settled r, s))"
      using Pair Inr by (simp add: after_transformers_def split: prod.splits sum.splits)
    finally show ?thesis .
  qed
qed

lemma steps_Transforming:
  "steps cfg id' (length list + Suc (Suc (Suc (Suc n)))) (Transforming list ms anns) st =
     (case after_transformers cfg id' (transformers_loop list ms id' anns st) of
        (r, s) \<Rightarrow> (Settled r, s))"
proof (induction list arbitrary: ms anns st)
  case Nil
  have "steps cfg id' (Suc (Suc (Suc (Suc n)))) (Transforming [] ms anns) st
      = steps cfg id' (Suc (Suc (Suc n))) (Calling ms anns) st" by simp
  then show ?case by (simp only: steps_Calling list.size add_0 transformers_loop.simps)
next
  case (Cons t list)
  obtain x s where one: "transformers_loop [t] ms id' anns st = (x, s)"
    by (cases "transformers_loop [t] ms id' anns st") blast
  have len: "length (t # list) + Suc (Suc (Suc (Suc n))) = Suc (length list + Suc (Suc (Suc (Suc n))))"
    by simp
  show ?case
  proof (cases x)
    case (Inl e)
    have l: "transformers_loop (t # list) ms id' anns st = (Inl e, s)"
      using loop_one_then_rest[of t list ms id' anns st] unfolding one Inl by simp
    have "step cfg id' (Transforming (t # list) ms anns) st = (Settled (Inl e), s)"
      using one Inl by (simp only: step.simps) simp
    then have "steps cfg id' (length (t # list) + Suc (Suc (Suc (Suc n)))) (Transforming (t # list) ms anns) st
        = (Settled (Inl e), s)"
      by (simp only: len steps.simps prod.case steps_Settled)
    then show ?thesis by (simp only: l) (simp add: after_transformers_def)
  next
    case (Inr v)
    obtain ms' anns' where v: "v = (ms', anns')" by (cases v)
    have l: "transformers_loop (t # list) ms id' anns st = transformers_loop list ms' id' anns' s"
      using loop_one_then_rest[of t list ms id' anns st] unfolding one Inr v by simp
    have "step cfg id' (Transforming (t # list) ms anns) st = (Transforming list ms' anns', s)"
      using one Inr v by (simp only: step.simps) simp
    then have "steps cfg id' (length (t # list) + Suc (Suc (Suc (Suc n)))) (Transforming (t # list) ms anns) st
        = steps cfg id' (length list + Suc (Suc (Suc (Suc n)))) (Transforming list ms' anns') s"
      by (simp only: len steps.simps prod.case)
    then show ?thesis by (simp only: l Cons.IH)
  qed
qed

text \<open>A handler that runs with no other in between settles as \<open>handler\<close> says.\<close>

lemma steps_alone:
  assumes "length (case uno st of None \<Rightarrow> [] | Some u \<Rightarrow> all_transformers u) + 5 \<le> n"
  shows "steps cfg id' n (Started src) st =
           (Settled (fst (handler cfg src id' st)), snd (handler cfg src id' st))"
proof (cases "uno st")
  case None
  from assms obtain m where "n = Suc m" by (cases n) auto
  with None show ?thesis
    by (simp add: steps_Settled handler_after_transformers applyTransformers_def after_transformers_def)
next
  case (Some u)
  let ?ms = "new_MagicString src"
  let ?k = "length (all_transformers u)"
  from assms Some obtain m where "n = ?k + 5 + m" using le_iff_add by auto
  then have n: "n = Suc (?k + Suc (Suc (Suc (Suc m))))" by simp
  have at: "applyTransformers ?ms id' st = transformers_loop (all_transformers u) ?ms id' [] st"
    using Some by (cases "transformers u") (auto simp: applyTransformers_def all_transformers_def)
  have "step cfg id' (Started src) st = (Transforming (all_transformers u) ?ms [], st)
      \<or> (all_transformers u = [] \<and> step cfg id' (Started src) st = (Calling ?ms [], st))"
    using Some by (cases "transformers u") (auto simp: all_transformers_def)
  then have "steps cfg id' n (Started src) st =
      (case after_transformers cfg id' (applyTransformers ?ms id' st) of (r, s) \<Rightarrow> (Settled r, s))"
  proof
    assume "step cfg id' (Started src) st = (Transforming (all_transformers u) ?ms [], st)"
    then have "steps cfg id' n (Started src) st
        = steps cfg id' (?k + Suc (Suc (Suc (Suc m)))) (Transforming (all_transformers u) ?ms []) st"
      by (simp only: n steps.simps prod.case)
    then show ?thesis by (simp only: steps_Transforming at)
  next
    assume a: "all_transformers u = [] \<and> step cfg id' (Started src) st = (Calling ?ms [], st)"
    then have "steps cfg id' n (Started src) st = steps cfg id' (Suc (Suc (Suc (Suc m)))) (Calling ?ms []) st"
      by (simp only: n steps.simps prod.case list.size add_0)
    also have "\<dots> = (case after_transformers cfg id' (Inr (?ms, []), st) of (r, s) \<Rightarrow> (Settled r, s))"
      by (rule steps_Calling)
    finally show ?thesis using a by (simp only: at transformers_loop.simps)
  qed
  then show ?thesis by (simp add: handler_after_transformers split: prod.splits)
qed

subsection \<open>Handlers in flight together\<close>









lemma join_annotations_returns:
  "join_annotations anns r = (Inr (ms, a), s) \<Longrightarrow>
   \<exists>anss. r = (Inr (ms, anss), s) \<and> a = anns @ concat anss"
  by (auto simp: join_annotations_def split: prod.splits sum.splits)

section \<open>The claims\<close>

text \<open>
  C1. Whenever the handler returns a result for a file, the text it has scanned is the
  materialised buffer as it is once every transformer whose filter accepts the file has
  been applied, in order, and the \<open>onTransform\<close> callback, if there is one, has been
  called on the result and has returned: the text of the buffer the callback left (of the
  buffer the transformers left, without a callback), not the source text. The handler has
  made exactly one scan; the code it returns is the scanned string, and the tokens it
  inserts are those the generator matched in that string.
\<close>

theorem scan_reads_final_text:
  assumes "handler cfg src id' st = (Inr res, st')"
  shows "\<exists>u ms1 anss st1 r.
           uno st = Some u
         \<and> apply_in_order_spec (filter (\<lambda>t. accepts t id') (all_transformers u))
              (new_MagicString src) id' st = (Inr (ms1, anss), st1)
         \<and> (case onTransform cfg of
               None \<Rightarrow> out_code res = toString ms1
             | Some cb \<Rightarrow>
                 snd (cb id' ms1 (concat anss)) = None
                 \<and> out_code res = toString (fst (cb id' ms1 (concat anss))))
         \<and> scans (new_events st st') = [out_code res]
         \<and> generate u (Text (out_code res)) (Some \<lparr>g_id = id', g_minify = minify cfg\<rparr>) = Inr r
         \<and> tokens st' = accumulate (matched r) (tokens st1)
         \<and> set (tokens st') = set (tokens st1) \<union> set (matched r)"
proof -
  from assms obtain ms2 r st3 where s: "scan_file cfg src id' st = (Inr (ms2, out_code res, r), st3)"
    and st': "st' = st3\<lparr>tokens := accumulate (matched r) (tokens st3)\<rparr>"
    by (rule handler_Inr)
  from s obtain ms1 anns st1 st2 u where
    at: "applyTransformers (new_MagicString src) id' st = (Inr (ms1, anns), st1)"
    and cb: "call_onTransform (onTransform cfg) id' ms1 anns st1 = (Inr ms2, st2)"
    and u2: "uno st2 = Some u"
    and code: "out_code res = toString ms2"
    and gen: "generate u (Text (out_code res)) (Some \<lparr>g_id = id', g_minify = minify cfg\<rparr>) = Inr r"
    and st3: "st3 = st2\<lparr>trace := trace st2 @
        [EvGenerate (Text (out_code res)) (Some \<lparr>g_id = id', g_minify = minify cfg\<rparr>)]\<rparr>"
    by (rule scan_file_Inr)
  have u: "uno st = Some u"
    using u2 call_onTransform_frame(1)[OF cb] applyTransformers_frame(1)[OF at] by simp
  from at u obtain anss where
    spec: "apply_in_order_spec (filter (\<lambda>t. accepts t id') (all_transformers u))
              (new_MagicString src) id' st = (Inr (ms1, anss), st1)"
    and anns: "anns = concat anss"
    using join_annotations_returns[of "[]"] by (fastforce simp: applyTransformers_refines)
  have call: "case onTransform cfg of
               None \<Rightarrow> out_code res = toString ms1
             | Some cb \<Rightarrow>
                 snd (cb id' ms1 (concat anss)) = None
                 \<and> out_code res = toString (fst (cb id' ms1 (concat anss)))"
    using cb code anns by (auto simp: call_onTransform_def split: option.splits prod.splits)
  from applyTransformers_frame(3)[OF at] obtain e1 where
    e1: "trace st1 = trace st @ e1" "list_all by_transformer e1" by blast
  let ?e2 = "case onTransform cfg of None \<Rightarrow> [] | Some f \<Rightarrow> [EvOnTransform id' ms1 anns]"
  have e2: "trace st2 = trace st1 @ ?e2" by (rule call_onTransform_frame(4)[OF cb])
  have "scans ?e2 = []" by (simp split: option.splits)
  moreover have "trace st' = trace st @ (e1 @ ?e2 @
      [EvGenerate (Text (out_code res)) (Some \<lparr>g_id = id', g_minify = minify cfg\<rparr>)])"
    using st' st3 e1(1) e2 by simp
  ultimately have sc: "scans (new_events st st') = [out_code res]"
    using e1(2) by (simp add: new_events_append scans_append by_transformer_scans)
  have tk: "tokens st' = accumulate (matched r) (tokens st1)"
    using st' st3 call_onTransform_frame(2)[OF cb] by simp
  then have "set (tokens st') = set (tokens st1) \<union> set (matched r)"
    by (simp add: set_accumulate)
  with tk u spec call sc gen show ?thesis by blast
qed

text \<open>A run on \<open>hover:(a b)\<close> with a callback that appends a class: the scan sees the
  expanded group and the appended class.\<close>

theorem scan_reads_final_text_witness:
  "\<exists>res st'. handler (plain_config\<lparr>onTransform := Some appendClass\<rparr>) ''hover:(a b)'' ''a.tsx''
         (started (wordGenerator (Some [variantGroup])))
       = (Inr res, st')
     \<and> scans (new_events (started (wordGenerator (Some [variantGroup]))) st') = [''hover:a hover:b c'']
     \<and> out_code res = ''hover:a hover:b c''
     \<and> tokens st' = [''hover:a'', ''hover:b'', ''c'']"
proof -
  let ?cfg = "plain_config\<lparr>onTransform := Some appendClass\<rparr>"
  let ?st = "started (wordGenerator (Some [variantGroup]))"
  obtain res st' where h: "handler ?cfg ''hover:(a b)'' ''a.tsx'' ?st = (Inr res, st')"
    and c: "out_code res = ''hover:a hover:b c''" and t: "tokens st' = [''hover:a'', ''hover:b'', ''c'']"
    by (simp add: plugin_defs example_defs)
  from scan_reads_final_text[OF h] c
  have "scans (new_events ?st st') = [''hover:a hover:b c'']" by auto
  with h c t show ?thesis by blast
qed




text \<open>
  C3. With an \<open>onTransform\<close> callback supplied and the transformers applied, the events
  of the file's run are: those of the transformers (each transformer that takes part,
  in order), then the one call of the callback, with the file identifier, the buffer
  and the whole list of annotations that \<open>applyTransformers\<close> returned, then, unless the
  callback threw, the scan of the buffer the callback left. The callback is called
  exactly once.
\<close>

theorem onTransform_once_after_transformers:
  assumes "onTransform cfg = Some cb"
    and "applyTransformers (new_MagicString src) id' st = (Inr (ms1, anns), st1)"
    and "handler cfg src id' st = (r, st')"
  shows "new_events st st' =
           new_events st st1 @ EvOnTransform id' ms1 anns #
             (case snd (cb id' ms1 anns) of
                Some e \<Rightarrow> []
              | None \<Rightarrow> [EvGenerate (Text (toString (fst (cb id' ms1 anns))))
                           (Some \<lparr>g_id = id', g_minify = minify cfg\<rparr>)])
       \<and> list_all by_transformer (new_events st st1)
       \<and> (\<exists>u. uno st = Some u \<and>
            transform_names (new_events st st1) =
              map name (filter (\<lambda>t. accepts t id') (all_transformers u)))
       \<and> filter is_onTransform (new_events st st') = [EvOnTransform id' ms1 anns]"
proof -
  obtain u where u: "uno st = Some u"
    using assms(2) by (cases "uno st") (auto simp: applyTransformers_undefined)
  have u1: "uno st1 = Some u" using applyTransformers_frame(1)[OF assms(2)] u by simp
  from applyTransformers_frame(3)[OF assms(2)] obtain e1 where
    e1: "trace st1 = trace st @ e1" "list_all by_transformer e1" by blast
  have n1: "new_events st st1 = e1" using e1(1) by (rule new_events_append)
  let ?after = "case snd (cb id' ms1 anns) of
                Some e \<Rightarrow> []
              | None \<Rightarrow> [EvGenerate (Text (toString (fst (cb id' ms1 anns))))
                           (Some \<lparr>g_id = id', g_minify = minify cfg\<rparr>)]"
  have "trace st' = trace st1 @ EvOnTransform id' ms1 anns # ?after"
    using assms u1
    by (auto simp: handler_def scan_file_def call_onTransform_def Let_def
             split: prod.splits sum.splits option.splits)
  then have tr: "trace st' = trace st @ (e1 @ EvOnTransform id' ms1 anns # ?after)"
    using e1(1) by simp
  have "filter is_onTransform ?after = []" by (simp split: option.splits)
  then have once: "filter is_onTransform (e1 @ EvOnTransform id' ms1 anns # ?after)
      = [EvOnTransform id' ms1 anns]"
    using e1(2) by (simp add: by_transformer_onTransform)
  from tr have "new_events st st' = e1 @ EvOnTransform id' ms1 anns # ?after"
    by (rule new_events_append)
  with n1 e1(2) once u applyTransformers_names[OF u assms(2)] show ?thesis by simp
qed

text \<open>A run with two transformers taking part and a callback that appends a class.\<close>

theorem onTransform_once_after_transformers_witness:
  "onTransform (plain_config\<lparr>onTransform := Some appendClass\<rparr>) = Some appendClass
   \<and> (\<exists>ms1 anns st1.
        applyTransformers (new_MagicString ''hover:(a b)'') ''a.tsx''
          (started (wordGenerator (Some [variantGroup, cssOnly, marker]))) = (Inr (ms1, anns), st1)
      \<and> new_events (started (wordGenerator (Some [variantGroup, cssOnly, marker])))
          (snd (handler (plain_config\<lparr>onTransform := Some appendClass\<rparr>) ''hover:(a b)'' ''a.tsx''
             (started (wordGenerator (Some [variantGroup, cssOnly, marker])))))
        = [EvTransform ''variant-group'' ''a.tsx'' (new_MagicString ''hover:(a b)''),
           EvTransform ''marker'' ''a.tsx'' \<lparr>original = ''hover:(a b)'', edited = ''hover:a hover:b''\<rparr>,
           EvOnTransform ''a.tsx'' ms1 anns,
           EvGenerate (Text ''hover:a hover:b c'') (Some \<lparr>g_id = ''a.tsx'', g_minify = None\<rparr>)]
      \<and> length anns = 2 \<and> toString ms1 = ''hover:a hover:b'')"
proof -
  let ?cfg = "plain_config\<lparr>onTransform := Some appendClass\<rparr>"
  let ?st = "started (wordGenerator (Some [variantGroup, cssOnly, marker]))"
  let ?ms1 = "\<lparr>original = ''hover:(a b)'', edited = ''hover:a hover:b''\<rparr>"
  let ?anns = "[\<lparr>ann_offset = 0, ann_length = 11, ann_className = ''hover:(a b)''\<rparr>,
              \<lparr>ann_offset = 0, ann_length = 7, ann_className = ''hover:a''\<rparr>]"
  have h1: "onTransform ?cfg = Some appendClass" by simp
  have h2: "applyTransformers (new_MagicString ''hover:(a b)'') ''a.tsx'' ?st =
      (Inr (?ms1, ?anns), ?st\<lparr>trace := [EvTransform ''variant-group'' ''a.tsx'' (new_MagicString ''hover:(a b)''),
           EvTransform ''marker'' ''a.tsx'' ?ms1]\<rparr>)"
    by (simp add: plugin_defs example_defs)
  have h3: "handler ?cfg ''hover:(a b)'' ''a.tsx'' ?st =
     (fst (handler ?cfg ''hover:(a b)'' ''a.tsx'' ?st), snd (handler ?cfg ''hover:(a b)'' ''a.tsx'' ?st))"
    by simp
  from onTransform_once_after_transformers[OF h1 h2 h3]
  have "new_events ?st (snd (handler ?cfg ''hover:(a b)'' ''a.tsx'' ?st))
        = [EvTransform ''variant-group'' ''a.tsx'' (new_MagicString ''hover:(a b)''),
           EvTransform ''marker'' ''a.tsx'' ?ms1,
           EvOnTransform ''a.tsx'' ?ms1 ?anns,
           EvGenerate (Text ''hover:a hover:b c'') (Some \<lparr>g_id = ''a.tsx'', g_minify = None\<rparr>)]"
    by (simp add: new_events_def started_def init_state_def appendClass_def toString_def
          plain_config_def unocss_def no_options_def)
  with h1 h2 show ?thesis by (simp add: toString_def)
qed

text \<open>
  C4 (amended). With \<open>generateCSS\<close> false, \<open>generateBundle\<close> returns at once: the state, trace
  included, is as before, so the generator is not called and nothing is emitted,
  whatever the accumulator holds. With \<open>generateCSS\<close> true (and the generator built) it
  calls \<open>uno.generate\<close> exactly once, on the accumulated tokens, empty or not. If that call
  throws, the exception propagates and \<open>emitFile\<close> is not called. If it returns,
  \<open>emitFile\<close> is called once, with the generator's CSS as source and \<open>fileName\<close> as name:
  when the host takes the asset, exactly that one asset is emitted; when the host throws,
  the exception propagates and no asset is emitted. An asset is emitted only if
  \<open>generateCSS\<close> is true, and never more than one.
\<close>

theorem generateBundle_emits_only_if_enabled:
  "(\<not> generateCSS cfg \<longrightarrow> generateBundle emitFile cfg st = (Inr (), st))
   \<and> (generateCSS cfg \<and> uno st = Some u \<longrightarrow>
        token_reads (new_events st (snd (generateBundle emitFile cfg st))) = [tokens st]
      \<and> tokens (snd (generateBundle emitFile cfg st)) = tokens st
      \<and> (case generate u (TokenSet (tokens st)) None of
            Inl e \<Rightarrow>
              fst (generateBundle emitFile cfg st) = Inl e
              \<and> new_events st (snd (generateBundle emitFile cfg st)) =
                  [EvGenerate (TokenSet (tokens st)) None]
          | Inr r \<Rightarrow>
              (case emitFile (Asset (css r) (fileName cfg)) of
                 None \<Rightarrow>
                   fst (generateBundle emitFile cfg st) = Inr ()
                   \<and> new_events st (snd (generateBundle emitFile cfg st)) =
                       [EvGenerate (TokenSet (tokens st)) None,
                        EvEmitFile (Asset (css r) (fileName cfg)) None]
                   \<and> emitted (new_events st (snd (generateBundle emitFile cfg st))) =
                       [Asset (css r) (fileName cfg)]
               | Some e \<Rightarrow>
                   fst (generateBundle emitFile cfg st) = Inl e
                   \<and> new_events st (snd (generateBundle emitFile cfg st)) =
                       [EvGenerate (TokenSet (tokens st)) None,
                        EvEmitFile (Asset (css r) (fileName cfg)) (Some e)]
                   \<and> emitted (new_events st (snd (generateBundle emitFile cfg st))) = [])))
   \<and> (emitted (new_events st (snd (generateBundle emitFile cfg st))) \<noteq> [] \<longrightarrow> generateCSS cfg)
   \<and> length (emitted (new_events st (snd (generateBundle emitFile cfg st)))) \<le> 1"
  by (auto simp: generateBundle_def new_events_def Let_def split: sum.splits option.splits)

text \<open>Disabled with two tokens accumulated; enabled with none, and with two.\<close>

theorem generateBundle_emits_only_if_enabled_witness:
  "generateBundle takes (plain_config\<lparr>generateCSS := False\<rparr>) ((started (wordGenerator None))\<lparr>tokens := [''a'', ''b'']\<rparr>)
     = (Inr (), (started (wordGenerator None))\<lparr>tokens := [''a'', ''b'']\<rparr>)
   \<and> generateCSS plain_config \<and> uno (started (wordGenerator None)) = Some (wordGenerator None)
   \<and> new_events (started (wordGenerator None)) (snd (generateBundle takes plain_config (started (wordGenerator None))))
       = [EvGenerate (TokenSet []) None, EvEmitFile (Asset [] ''uno.css'') None]
   \<and> emitted (new_events ((started (wordGenerator None))\<lparr>tokens := [''a'', ''b'']\<rparr>)
        (snd (generateBundle takes plain_config ((started (wordGenerator None))\<lparr>tokens := [''a'', ''b'']\<rparr>))))
       = [Asset ''.a{}.b{}'' ''uno.css'']"
proof -
  let ?u = "wordGenerator None"
  let ?off = "plain_config\<lparr>generateCSS := False\<rparr>"
  let ?st = "(started ?u)\<lparr>tokens := [''a'', ''b'']\<rparr>"
  have g: "generateCSS plain_config" and n: "\<not> generateCSS ?off" by (simp_all add: example_defs)
  have u: "uno (started ?u) = Some ?u" "uno ?st = Some ?u" by (simp_all add: started_def)
  have "generateBundle takes ?off ?st = (Inr (), ?st)"
    using generateBundle_emits_only_if_enabled[where cfg = ?off and emitFile = takes and st = ?st and u = ?u] n by blast
  moreover have "new_events (started ?u) (snd (generateBundle takes plain_config (started ?u)))
       = [EvGenerate (TokenSet []) None, EvEmitFile (Asset [] ''uno.css'') None]"
    using generateBundle_emits_only_if_enabled[where cfg = plain_config and emitFile = takes and st = "started ?u" and u = ?u] g u
    by (simp add: example_defs)
  moreover have "emitted (new_events ?st (snd (generateBundle takes plain_config ?st)))
       = [Asset ''.a{}.b{}'' ''uno.css'']"
    using generateBundle_emits_only_if_enabled[where cfg = plain_config and emitFile = takes and st = ?st and u = ?u] g u
    by (simp add: example_defs)
  ultimately show ?thesis using g u by simp
qed

text \<open>
  C4 as stated fails: with \<open>generateCSS\<close> true and the generator built, no asset is
  emitted when the generation call throws, nor when the host's \<open>emitFile\<close> throws.
\<close>

theorem enabled_without_asset_counterexample:
  "generateCSS plain_config
   \<and> generateBundle takes plain_config (started brokenGenerator)
       = (Inl (Error ''generate failed''),
          (started brokenGenerator)\<lparr>trace := [EvGenerate (TokenSet []) None]\<rparr>)
   \<and> emitted (new_events (started brokenGenerator)
        (snd (generateBundle takes plain_config (started brokenGenerator)))) = []
   \<and> fst (generateBundle refuses plain_config (started (wordGenerator None)))
       = Inl (Error ''invalid file name'')
   \<and> emitted (new_events (started (wordGenerator None))
        (snd (generateBundle refuses plain_config (started (wordGenerator None))))) = []"
  by (simp add: plugin_defs example_defs)

text \<open>
  C5. \<open>applyTransformers\<close> does what the specification says of the transformers whose
  identifier filter accepts the file (or that have none): it applies them one after the
  other in the order of the list and returns the concatenation of their annotations. A
  transformer whose filter rejects the identifier makes no difference to the result or to
  the state, and the calls recorded are those of the others, in order.
\<close>

theorem applyTransformers_in_list_order:
  assumes "uno st = Some u"
  shows "applyTransformers ms id' st =
           join_annotations []
             (apply_in_order_spec (filter (\<lambda>t. accepts t id') (all_transformers u)) ms id' st)
       \<and> (\<forall>v st'. applyTransformers ms id' st = (Inr v, st') \<longrightarrow>
            transform_names (new_events st st') =
              map name (filter (\<lambda>t. accepts t id') (all_transformers u)))"
  using assms applyTransformers_refines applyTransformers_names by blast

text \<open>Three transformers, the second of which rejects \<open>a.tsx\<close>.\<close>

theorem applyTransformers_in_list_order_witness:
  "uno (started (wordGenerator (Some [variantGroup, cssOnly, marker])))
     = Some (wordGenerator (Some [variantGroup, cssOnly, marker]))
   \<and> applyTransformers (new_MagicString ''hover:(a b)'') ''a.tsx''
        (started (wordGenerator (Some [variantGroup, cssOnly, marker])))
     = (Inr (\<lparr>original = ''hover:(a b)'', edited = ''hover:a hover:b''\<rparr>,
             [\<lparr>ann_offset = 0, ann_length = 11, ann_className = ''hover:(a b)''\<rparr>,
              \<lparr>ann_offset = 0, ann_length = 7, ann_className = ''hover:a''\<rparr>]),
        (started (wordGenerator (Some [variantGroup, cssOnly, marker])))
          \<lparr>trace := [EvTransform ''variant-group'' ''a.tsx'' (new_MagicString ''hover:(a b)''),
                     EvTransform ''marker'' ''a.tsx''
                       \<lparr>original = ''hover:(a b)'', edited = ''hover:a hover:b''\<rparr>]\<rparr>)"
proof -
  let ?u = "wordGenerator (Some [variantGroup, cssOnly, marker])"
  have h: "uno (started ?u) = Some ?u" by (simp add: started_def)
  have ts: "filter (\<lambda>t. accepts t ''a.tsx'') (all_transformers ?u) = [variantGroup, marker]"
    by (simp add: all_transformers_def accepts_def example_defs)
  from applyTransformers_in_list_order[OF h, of "new_MagicString ''hover:(a b)''" "''a.tsx''"]
  have "applyTransformers (new_MagicString ''hover:(a b)'') ''a.tsx'' (started ?u) =
      join_annotations [] (apply_in_order_spec [variantGroup, marker]
        (new_MagicString ''hover:(a b)'') ''a.tsx'' (started ?u))"
    by (simp only: ts)
  also have "\<dots> = (Inr (\<lparr>original = ''hover:(a b)'', edited = ''hover:a hover:b''\<rparr>,
             [\<lparr>ann_offset = 0, ann_length = 11, ann_className = ''hover:(a b)''\<rparr>,
              \<lparr>ann_offset = 0, ann_length = 7, ann_className = ''hover:a''\<rparr>]),
        (started ?u)
          \<lparr>trace := [EvTransform ''variant-group'' ''a.tsx'' (new_MagicString ''hover:(a b)''),
                     EvTransform ''marker'' ''a.tsx''
                       \<lparr>original = ''hover:(a b)'', edited = ''hover:a hover:b''\<rparr>]\<rparr>)"
    by (simp add: join_annotations_def plugin_defs example_defs)
  finally show ?thesis using h by simp
qed

text \<open>
  C6 (amended). If a transformer, the \<open>onTransform\<close> callback or the scan throws, the
  handler returns that exception and no result. The handler itself has then inserted
  nothing into the accumulator: the accumulator is as the transformers' own calls on
  \<open>context.tokens\<close> left it, and is unchanged when no transformer writes to
  \<open>context.tokens\<close>.
\<close>

theorem handler_failure_no_partial_result:
  "(applyTransformers (new_MagicString src) id' st = (Inl e, stT) \<longrightarrow>
      handler cfg src id' st = (Inl e, stT))
   \<and> (applyTransformers (new_MagicString src) id' st = (Inr (msT, anns), stT)
        \<and> call_onTransform (onTransform cfg) id' msT anns stT = (Inl e, stC) \<longrightarrow>
      handler cfg src id' st = (Inl e, stC))
   \<and> (applyTransformers (new_MagicString src) id' st = (Inr (msT, anns), stT)
        \<and> call_onTransform (onTransform cfg) id' msT anns stT = (Inr msC, stC)
        \<and> uno stC = Some u
        \<and> generate u (Text (toString msC)) (Some \<lparr>g_id = id', g_minify = minify cfg\<rparr>) = Inl e \<longrightarrow>
      handler cfg src id' st =
        (Inl e, stC\<lparr>trace := trace stC @
           [EvGenerate (Text (toString msC)) (Some \<lparr>g_id = id', g_minify = minify cfg\<rparr>)]\<rparr>))
   \<and> (fst (handler cfg src id' st) = Inl e \<longrightarrow>
        tokens (snd (handler cfg src id' st)) =
          tokens (snd (applyTransformers (new_MagicString src) id' st)))
   \<and> (fst (handler cfg src id' st) = Inl e \<and> uno st = Some u \<and> never_writes u \<longrightarrow>
        tokens (snd (handler cfg src id' st)) = tokens st)"
proof -
  have a: "applyTransformers (new_MagicString src) id' st = (Inl e, stT) \<longrightarrow>
      handler cfg src id' st = (Inl e, stT)"
    by (simp add: handler_Inl scan_file_transformer_throws)
  have b: "applyTransformers (new_MagicString src) id' st = (Inr (msT, anns), stT)
        \<and> call_onTransform (onTransform cfg) id' msT anns stT = (Inl e, stC) \<longrightarrow>
      handler cfg src id' st = (Inl e, stC)"
    by (simp add: handler_Inl scan_file_callback_throws)
  have c: "applyTransformers (new_MagicString src) id' st = (Inr (msT, anns), stT)
        \<and> call_onTransform (onTransform cfg) id' msT anns stT = (Inr msC, stC)
        \<and> uno stC = Some u
        \<and> generate u (Text (toString msC)) (Some \<lparr>g_id = id', g_minify = minify cfg\<rparr>) = Inl e \<longrightarrow>
      handler cfg src id' st =
        (Inl e, stC\<lparr>trace := trace stC @
           [EvGenerate (Text (toString msC)) (Some \<lparr>g_id = id', g_minify = minify cfg\<rparr>)]\<rparr>)"
    by (simp add: handler_Inl scan_file_stages)
  have d: "fst (handler cfg src id' st) = Inl e \<longrightarrow>
        tokens (snd (handler cfg src id' st)) =
          tokens (snd (applyTransformers (new_MagicString src) id' st))"
    by (simp add: handler_tokens handler_fails_iff)
  have "fst (handler cfg src id' st) = Inl e \<and> uno st = Some u \<and> never_writes u \<longrightarrow>
        tokens (snd (handler cfg src id' st)) = tokens st"
    using d by (simp add: applyTransformers_tokens_snd)
  with a b c d show ?thesis by blast
qed

text \<open>A scan that fails after a transformer that leaves the context alone.\<close>

theorem handler_failure_no_partial_result_witness:
  "handler plain_config ''!'' ''a.tsx'' ((started (wordGenerator (Some [variantGroup])))\<lparr>tokens := [''a'']\<rparr>)
     = (Inl (Error ''scan failed''),
        (started (wordGenerator (Some [variantGroup])))
          \<lparr>tokens := [''a''],
           trace := [EvTransform ''variant-group'' ''a.tsx'' (new_MagicString ''!''),
                     EvGenerate (Text ''!'') (Some \<lparr>g_id = ''a.tsx'', g_minify = None\<rparr>)]\<rparr>)
   \<and> never_writes (wordGenerator (Some [variantGroup]))"
proof -
  let ?u = "wordGenerator (Some [variantGroup])"
  let ?st = "(started ?u)\<lparr>tokens := [''a'']\<rparr>"
  let ?st1 = "?st\<lparr>trace := [EvTransform ''variant-group'' ''a.tsx'' (new_MagicString ''!'')]\<rparr>"
  have nw: "never_writes ?u"
    by (simp add: never_writes_def all_transformers_def wordGenerator_def variantGroup_def)
  have h1: "applyTransformers (new_MagicString ''!'') ''a.tsx'' ?st =
      (Inr (new_MagicString ''!'',
            [\<lparr>ann_offset = 0, ann_length = 11, ann_className = ''hover:(a b)''\<rparr>]), ?st1)"
    by (simp add: plugin_defs example_defs)
  have h2: "call_onTransform (onTransform plain_config) ''a.tsx'' (new_MagicString ''!'')
      [\<lparr>ann_offset = 0, ann_length = 11, ann_className = ''hover:(a b)''\<rparr>] ?st1
      = (Inr (new_MagicString ''!''), ?st1)"
    by (simp add: plugin_defs example_defs)
  have h3: "uno ?st1 = Some ?u" by (simp add: started_def)
  have h4: "generate ?u (Text (toString (new_MagicString ''!'')))
      (Some \<lparr>g_id = ''a.tsx'', g_minify = minify plain_config\<rparr>) = Inl (Error ''scan failed'')"
    by (simp add: plugin_defs example_defs)
  from handler_failure_no_partial_result[where cfg = plain_config and src = "''!''" and id' = "''a.tsx''"
      and st = ?st and msT = "new_MagicString ''!''" and stT = ?st1 and msC = "new_MagicString ''!''"
      and stC = ?st1 and u = ?u and e = "Error ''scan failed''"
      and anns = "[\<lparr>ann_offset = 0, ann_length = 11, ann_className = ''hover:(a b)''\<rparr>]"]
    h1 h2 h3 h4
  have "handler plain_config ''!'' ''a.tsx'' ?st =
    (Inl (Error ''scan failed''), ?st1\<lparr>trace := trace ?st1 @
       [EvGenerate (Text (toString (new_MagicString ''!'')))
          (Some \<lparr>g_id = ''a.tsx'', g_minify = minify plain_config\<rparr>)]\<rparr>)"
    by blast
  then show ?thesis using nw by (simp add: plugin_defs example_defs)
qed

text \<open>
  C6 as stated fails: a transformer adds a token through \<open>context.tokens\<close>, the scan then
  throws, and the accumulator has changed.
\<close>

theorem failed_transform_changes_accumulator_counterexample:
  "fst (handler plain_config ''!'' ''a.tsx'' (started (wordGenerator (Some [compileClass]))))
     = Inl (Error ''scan failed'')
   \<and> tokens (started (wordGenerator (Some [compileClass]))) = []
   \<and> tokens (snd (handler plain_config ''!'' ''a.tsx'' (started (wordGenerator (Some [compileClass])))))
     = [''uno-1'']
   \<and> tokens (snd (handler plain_config ''!'' ''a.tsx'' (started (wordGenerator (Some [compileClass])))))
     \<noteq> tokens (started (wordGenerator (Some [compileClass])))"
  by (simp add: plugin_defs example_defs compileClass_def)

text \<open>
  C7 (amended). Adding a token that is present is a no-op. The handler's own step only
  adds tokens: what the accumulator holds after the scan stage it still holds when the
  handler returns, and over a whole run of the handler the set of tokens grows whenever
  no transformer deletes from \<open>context.tokens\<close> or clears it. The plugin's own code hands
  the accumulator to the generator only in \<open>generateBundle\<close>: never in the handler, once
  and in full in \<open>generateBundle\<close> when \<open>generateCSS\<close> is true, not at all when it is
  false.
\<close>

theorem accumulator_grows:
  "Set_add x (Set_add x s) = Set_add x s
   \<and> (x \<in> set s \<longrightarrow> Set_add x s = s)
   \<and> set (tokens (snd (scan_file cfg src id' st))) \<subseteq> set (tokens (snd (handler cfg src id' st)))
   \<and> (uno st = Some u \<and> never_removes u \<longrightarrow>
        set (tokens st) \<subseteq> set (tokens (snd (handler cfg src id' st))))
   \<and> token_reads (new_events st (snd (handler cfg src id' st))) = []
   \<and> (generateCSS cfg \<and> uno st = Some u \<longrightarrow>
        token_reads (new_events st (snd (generateBundle emitFile cfg st))) = [tokens st])
   \<and> (\<not> generateCSS cfg \<longrightarrow> token_reads (new_events st (snd (generateBundle emitFile cfg st))) = [])"
proof -
  have a: "Set_add x (Set_add x s) = Set_add x s" "x \<in> set s \<longrightarrow> Set_add x s = s"
    by (simp_all add: Set_add_def)
  have b: "set (tokens (snd (scan_file cfg src id' st))) \<subseteq> set (tokens (snd (handler cfg src id' st)))"
    by (cases "scan_file cfg src id' st")
       (auto simp: handler_def set_accumulate split: sum.splits)
  have c: "uno st = Some u \<and> never_removes u \<longrightarrow>
        set (tokens st) \<subseteq> set (tokens (snd (handler cfg src id' st)))"
    using b applyTransformers_tokens_mono_snd[of st u "new_MagicString src" id']
    by (auto simp: scan_file_tokens)
  have d: "token_reads (new_events st (snd (handler cfg src id' st))) = []"
    using handler_frame(3)[of cfg src id' st] by (cases "handler cfg src id' st") (auto simp: new_events_append)
  have e: "generateCSS cfg \<and> uno st = Some u \<longrightarrow>
        token_reads (new_events st (snd (generateBundle emitFile cfg st))) = [tokens st]"
    by (auto simp: generateBundle_def new_events_def Let_def split: sum.splits option.splits)
  have f: "\<not> generateCSS cfg \<longrightarrow> token_reads (new_events st (snd (generateBundle emitFile cfg st))) = []"
    by (simp add: generateBundle_def new_events_def)
  from a b c d e f show ?thesis by blast
qed

text \<open>A transformer that adds a token through the context, on an accumulator that
  holds one of the file's tokens already.\<close>

theorem accumulator_grows_witness:
  "uno ((started (wordGenerator (Some [compileClass])))\<lparr>tokens := [''a'']\<rparr>)
     = Some (wordGenerator (Some [compileClass]))
   \<and> never_removes (wordGenerator (Some [compileClass]))
   \<and> tokens (snd (handler plain_config ''b a'' ''a.tsx''
        ((started (wordGenerator (Some [compileClass])))\<lparr>tokens := [''a'']\<rparr>))) = [''a'', ''uno-1'', ''b'']
   \<and> set [''a''] \<subseteq> set (tokens (snd (handler plain_config ''b a'' ''a.tsx''
        ((started (wordGenerator (Some [compileClass])))\<lparr>tokens := [''a'']\<rparr>))))
   \<and> Set_add ''a'' [''a'', ''b''] = [''a'', ''b'']"
proof -
  let ?u = "wordGenerator (Some [compileClass])"
  let ?st = "(started ?u)\<lparr>tokens := [''a'']\<rparr>"
  have u: "uno ?st = Some ?u" by (simp add: started_def)
  have nr: "never_removes ?u"
    by (simp add: never_removes_def all_transformers_def wordGenerator_def compileClass_def contextUser_def)
  note g = accumulator_grows[where st = ?st and u = ?u and cfg = plain_config and src = "''b a''"
      and id' = "''a.tsx''" and x = "''a''" and s = "[''a'', ''b'']"]
  from g u nr have m: "set (tokens ?st) \<subseteq> set (tokens (snd (handler plain_config ''b a'' ''a.tsx'' ?st)))"
    by blast
  from g have i: "Set_add ''a'' [''a'', ''b''] = [''a'', ''b'']" by simp
  have t: "tokens (snd (handler plain_config ''b a'' ''a.tsx'' ?st)) = [''a'', ''uno-1'', ''b'']"
    by (simp add: plugin_defs example_defs compileClass_def)
  from u nr m i t show ?thesis by (simp add: started_def)
qed

text \<open>
  C7 as stated fails: a transformer clears \<open>context.tokens\<close>, and a token that was in
  the accumulator before the file's transform is no longer there after it.
\<close>

theorem transform_shrinks_accumulator_counterexample:
  "tokens ((started (wordGenerator (Some [resetting])))\<lparr>tokens := [''a'']\<rparr>) = [''a'']
   \<and> handler plain_config ''b'' ''a.tsx'' ((started (wordGenerator (Some [resetting])))\<lparr>tokens := [''a'']\<rparr>)
     = (Inr \<lparr>out_code = ''b'', out_map = generateMap (new_MagicString ''b'') True\<rparr>,
        (started (wordGenerator (Some [resetting])))
          \<lparr>tokens := [''b''],
           trace := [EvTransform ''reset'' ''a.tsx'' (new_MagicString ''b''),
                     EvGenerate (Text ''b'') (Some \<lparr>g_id = ''a.tsx'', g_minify = None\<rparr>)]\<rparr>)
   \<and> \<not> set (tokens ((started (wordGenerator (Some [resetting])))\<lparr>tokens := [''a'']\<rparr>))
         \<subseteq> set (tokens (snd (handler plain_config ''b'' ''a.tsx''
             ((started (wordGenerator (Some [resetting])))\<lparr>tokens := [''a'']\<rparr>))))"
  by (simp add: plugin_defs example_defs resetting_def)



text \<open>
  C9 (amended). \<open>onInvalidate(fn)\<close> appends \<open>fn\<close> to \<open>cleanup\<close> and changes nothing else. No
  operation of the plugin removes a registered callback: \<open>invalidate\<close>, \<open>generateBundle\<close> and
  \<open>buildStart\<close> leave the registry as it is, and a call on the context or a run of the
  handler leaves it a prefix of what it becomes. \<open>invalidate()\<close> calls the registered
  callbacks in registration order, each at most once, up to and including the first that
  throws, whose exception it passes on; it returns exactly when none throws, and has then
  called every registered callback exactly once, in registration order.
\<close>

theorem cleanup_registry_append_only:
  "onInvalidate fn st = st\<lparr>cleanup := cleanup st @ [fn]\<rparr>
   \<and> cleanup (snd (invalidate st)) = cleanup st
   \<and> prefix (cleanup st) (cleanup (ctx_step st c))
   \<and> prefix (cleanup st) (cleanup (snd (handler cfg src id' st)))
   \<and> cleanup (snd (generateBundle emitFile cfg st)) = cleanup st
   \<and> cleanup (snd (buildStart env cfg st)) = cleanup st
   \<and> new_events st (snd (invalidate st)) = map EvCleanup (called (cleanup st))
   \<and> prefix (called (cleanup st)) (cleanup st)
   \<and> (fst (invalidate st) = Inr ()) = list_all (\<lambda>f. fn_throws f = None) (cleanup st)
   \<and> (fst (invalidate st) = Inr () \<longrightarrow>
        new_events st (snd (invalidate st)) = map EvCleanup (cleanup st))"
proof -
  have h: "prefix (cleanup st) (cleanup (snd (handler cfg src id' st)))"
    using handler_frame(2)[of cfg src id' st] by (cases "handler cfg src id' st") simp
  have g: "cleanup (snd (generateBundle emitFile cfg st)) = cleanup st"
    by (simp add: generateBundle_def Let_def split: sum.splits option.splits)
  have b: "cleanup (snd (buildStart env cfg st)) = cleanup st"
    by (simp add: buildStart_def split: sum.splits)
  have r: "(fst (invalidate st) = Inr ()) = list_all (\<lambda>f. fn_throws f = None) (cleanup st)"
    using forEach_call_returns[of "cleanup st" "trace st"]
    by (cases "forEach_call (cleanup st) (trace st)") (simp add: invalidate_def)
  have e: "new_events st (snd (invalidate st)) = map EvCleanup (called (cleanup st))"
    by (simp add: new_events_append invalidate_frame)
  from r e have "fst (invalidate st) = Inr () \<longrightarrow>
        new_events st (snd (invalidate st)) = map EvCleanup (cleanup st)"
    by (simp add: called_all)
  with h g b r e show ?thesis
    by (simp add: onInvalidate_def invalidate_frame ctx_step_cleanup called_prefix)
qed

text \<open>Two callbacks registered, then invalidated; and a registry whose second callback
  of three throws.\<close>

theorem cleanup_registry_append_only_witness:
  "cleanup (onInvalidate (VoidFunction ''second'' None)
      (onInvalidate (VoidFunction ''first'' None) init_state))
     = [VoidFunction ''first'' None, VoidFunction ''second'' None]
   \<and> invalidate (onInvalidate (VoidFunction ''second'' None)
        (onInvalidate (VoidFunction ''first'' None) init_state))
     = (Inr (), \<lparr>uno = None, tokens = [],
          cleanup = [VoidFunction ''first'' None, VoidFunction ''second'' None],
          trace = [EvCleanup (VoidFunction ''first'' None), EvCleanup (VoidFunction ''second'' None)]\<rparr>)
   \<and> new_events
        (init_state\<lparr>cleanup := [VoidFunction ''first'' None,
           VoidFunction ''second'' (Some (Error ''stop'')), VoidFunction ''third'' None]\<rparr>)
        (snd (invalidate (init_state\<lparr>cleanup := [VoidFunction ''first'' None,
           VoidFunction ''second'' (Some (Error ''stop'')), VoidFunction ''third'' None]\<rparr>)))
     = [EvCleanup (VoidFunction ''first'' None), EvCleanup (VoidFunction ''second'' (Some (Error ''stop'')))]"
proof -
  let ?f = "VoidFunction ''first'' None" and ?g = "VoidFunction ''second'' None"
  let ?st = "onInvalidate ?g (onInvalidate ?f init_state)"
  let ?st3 = "init_state\<lparr>cleanup := [?f, VoidFunction ''second'' (Some (Error ''stop'')),
     VoidFunction ''third'' None]\<rparr>"
  note reg = cleanup_registry_append_only[where c = Invalidate and cfg = plain_config
      and src = "[]" and id' = "[]" and emitFile = takes
      and env = "\<lparr>loadConfig = (\<lambda>r c. Inr ()), createGenerator = (\<lambda>c. Inl (Error []))\<rparr>"]
  have c: "cleanup ?st = [?f, ?g]"
    using reg[of ?g "onInvalidate ?f init_state", THEN conjunct1] reg[of ?f init_state, THEN conjunct1]
    by (simp add: init_state_def)
  have "fst (invalidate ?st) = Inr ()"
    using reg[of ?f ?st] c by simp
  moreover from this have "new_events ?st (snd (invalidate ?st)) = map EvCleanup (cleanup ?st)"
    using reg[of ?f ?st] by blast
  ultimately have two: "invalidate ?st = (Inr (), \<lparr>uno = None, tokens = [],
          cleanup = [?f, ?g], trace = [EvCleanup ?f, EvCleanup ?g]\<rparr>)"
    using c by (cases "invalidate ?st")
      (auto simp: invalidate_def onInvalidate_def init_state_def new_events_def split: prod.splits)
  have "new_events ?st3 (snd (invalidate ?st3)) = map EvCleanup (called (cleanup ?st3))"
    using reg[of ?f ?st3] by blast
  then have "new_events ?st3 (snd (invalidate ?st3))
      = [EvCleanup ?f, EvCleanup (VoidFunction ''second'' (Some (Error ''stop'')))]"
    by simp
  with c two show ?thesis by simp
qed

text \<open>
  C9 as stated fails: the first of two registered callbacks throws, and \<open>invalidate()\<close>
  never calls the second.
\<close>

theorem invalidate_stops_at_throw_counterexample:
  "cleanup (onInvalidate (VoidFunction ''second'' None)
      (onInvalidate (VoidFunction ''first'' (Some (Error ''stop''))) init_state))
     = [VoidFunction ''first'' (Some (Error ''stop'')), VoidFunction ''second'' None]
   \<and> invalidate (onInvalidate (VoidFunction ''second'' None)
        (onInvalidate (VoidFunction ''first'' (Some (Error ''stop''))) init_state))
     = (Inl (Error ''stop''), \<lparr>uno = None, tokens = [],
          cleanup = [VoidFunction ''first'' (Some (Error ''stop'')), VoidFunction ''second'' None],
          trace = [EvCleanup (VoidFunction ''first'' (Some (Error ''stop'')))]\<rparr>)"
  by (simp add: invalidate_def onInvalidate_def init_state_def)

text \<open>
  C10. With no transformers (an absent or empty list) and no \<open>onTransform\<close> callback,
  \<open>applyTransformers\<close> returns the empty annotation list and leaves buffer and state as
  they are, the code the handler returns is the source text it was given, and the matched
  tokens of the scan of that text go into the accumulator.
\<close>

theorem no_transformers_identity:
  assumes "uno st = Some u"
    and "transformers u = None \<or> transformers u = Some []"
    and "onTransform cfg = None"
  shows "applyTransformers ms id' st = (Inr (ms, []), st)
       \<and> handler cfg src id' st =
           (case generate u (Text src) (Some \<lparr>g_id = id', g_minify = minify cfg\<rparr>) of
              Inl e \<Rightarrow>
                (Inl e, st\<lparr>trace := trace st @
                   [EvGenerate (Text src) (Some \<lparr>g_id = id', g_minify = minify cfg\<rparr>)]\<rparr>)
            | Inr r \<Rightarrow>
                (Inr \<lparr>out_code = src, out_map = generateMap (new_MagicString src) True\<rparr>,
                 st\<lparr>trace := trace st @
                      [EvGenerate (Text src) (Some \<lparr>g_id = id', g_minify = minify cfg\<rparr>)],
                    tokens := accumulate (matched r) (tokens st)\<rparr>))
       \<and> (\<forall>r. generate u (Text src) (Some \<lparr>g_id = id', g_minify = minify cfg\<rparr>) = Inr r \<longrightarrow>
            set (tokens (snd (handler cfg src id' st))) = set (tokens st) \<union> set (matched r))"
proof -
  have at: "\<And>ms. applyTransformers ms id' st = (Inr (ms, []), st)"
    using assms(1,2) by (auto simp: applyTransformers_def)
  have h: "handler cfg src id' st =
           (case generate u (Text src) (Some \<lparr>g_id = id', g_minify = minify cfg\<rparr>) of
              Inl e \<Rightarrow>
                (Inl e, st\<lparr>trace := trace st @
                   [EvGenerate (Text src) (Some \<lparr>g_id = id', g_minify = minify cfg\<rparr>)]\<rparr>)
            | Inr r \<Rightarrow>
                (Inr \<lparr>out_code = src, out_map = generateMap (new_MagicString src) True\<rparr>,
                 st\<lparr>trace := trace st @
                      [EvGenerate (Text src) (Some \<lparr>g_id = id', g_minify = minify cfg\<rparr>)],
                    tokens := accumulate (matched r) (tokens st)\<rparr>))"
    using assms(1,3)
    by (simp add: handler_def scan_file_def at call_onTransform_def Let_def
          toString_def new_MagicString_def split: sum.splits)
  have "\<forall>r. generate u (Text src) (Some \<lparr>g_id = id', g_minify = minify cfg\<rparr>) = Inr r \<longrightarrow>
            set (tokens (snd (handler cfg src id' st))) = set (tokens st) \<union> set (matched r)"
    by (simp add: h set_accumulate)
  with at h show ?thesis by blast
qed

text \<open>A file transformed by a generator without transformers.\<close>

theorem no_transformers_identity_witness:
  "uno (started (wordGenerator None)) = Some (wordGenerator None)
   \<and> (transformers (wordGenerator None) = None \<or> transformers (wordGenerator None) = Some [])
   \<and> onTransform plain_config = None
   \<and> handler plain_config ''hover:(a b) m-1'' ''a.tsx'' (started (wordGenerator None)) =
       (Inr \<lparr>out_code = ''hover:(a b) m-1'',
             out_map = generateMap (new_MagicString ''hover:(a b) m-1'') True\<rparr>,
        (started (wordGenerator None))
          \<lparr>trace := [EvGenerate (Text ''hover:(a b) m-1'') (Some \<lparr>g_id = ''a.tsx'', g_minify = None\<rparr>)],
           tokens := [''hover:(a'', ''b)'', ''m-1'']\<rparr>)"
proof -
  let ?u = "wordGenerator None"
  have h1: "uno (started ?u) = Some ?u" by (simp add: started_def)
  have h2: "transformers ?u = None \<or> transformers ?u = Some []" by (simp add: wordGenerator_def)
  have h3: "onTransform plain_config = None" by (simp add: example_defs)
  from no_transformers_identity[OF h1 h2 h3, of undefined "''a.tsx''" "''hover:(a b) m-1''"]
  have "handler plain_config ''hover:(a b) m-1'' ''a.tsx'' (started ?u) =
       (Inr \<lparr>out_code = ''hover:(a b) m-1'',
             out_map = generateMap (new_MagicString ''hover:(a b) m-1'') True\<rparr>,
        (started ?u)
          \<lparr>trace := [EvGenerate (Text ''hover:(a b) m-1'') (Some \<lparr>g_id = ''a.tsx'', g_minify = None\<rparr>)],
           tokens := [''hover:(a'', ''b)'', ''m-1'']\<rparr>)"
    by (simp add: example_defs accumulate_def Set_add_def)
  with h1 h2 h3 show ?thesis by blast
qed

end
